(* ===== verification/Prelude.thy ===== *)
theory Prelude
  imports Main "HOL-Library.Word" "HOL-Library.Monad_Syntax" "HOL-Library.Code_Target_Nat"
begin

section \<open>Prelude: the parts of Rust's standard library the crate uses\<close>

text \<open>
  Shared definitions and lemmas of the development:
  \<^item> strings: \<open>str::trim\<close>, \<open>split\<close>, \<open>split_once\<close>, \<open>strip_prefix\<close>, \<open>strip_suffix\<close>,
    \<open>contains\<close>, \<open>find\<close>, \<open>join\<close>, \<open>to_ascii_lowercase\<close>, and \<open>u64\<close> parsing and printing.
    A Rust \<open>char\<close> is HOL's \<open>char\<close>, read as the code point below 256;
  \<^item> \<open>std::time\<close>: a \<open>Duration\<close> is its number of nanoseconds, at most
    \<open>duration_max\<close>; a \<open>SystemTime\<close> is its number of nanoseconds since the Unix epoch.
    Addition and subtraction of durations panic out of range: a computation that may
    panic has type \<open>'a option\<close>, where \<^const>\<open>None\<close> is the panic;
  \<^item> \<open>io::Result\<close> and \<open>Poll\<close>.
\<close>

named_theorems str_simps \<open>equations of the string operations\<close>
named_theorems dur_simps \<open>equations of duration arithmetic\<close>
named_theorems model_defs \<open>definitions unfolded to evaluate the model\<close>

subsection \<open>Integers, results and polls\<close>

type_synonym u16 = "16 word"
type_synonym u32 = "32 word"
type_synonym u64 = "64 word"
type_synonym bytes = "8 word list"

datatype io_error = IoError string

type_synonym 'a io_result = "io_error + 'a"

datatype 'a poll = Pending | Ready 'a

subsection \<open>Strings\<close>

definition is_whitespace :: "char \<Rightarrow> bool" where
  "is_whitespace c =
     (let n = (of_char c :: nat) in (9 \<le> n \<and> n \<le> 13) \<or> n = 32 \<or> n = 133 \<or> n = 160)"

definition trim_start :: "string \<Rightarrow> string" where
  "trim_start s = dropWhile is_whitespace s"

definition trim_end :: "string \<Rightarrow> string" where
  "trim_end s = rev (dropWhile is_whitespace (rev s))"

definition trim :: "string \<Rightarrow> string" where
  "trim s = trim_end (trim_start s)"

fun split_on :: "(char \<Rightarrow> bool) \<Rightarrow> string \<Rightarrow> string list" where
  "split_on p [] = [[]]"
| "split_on p (c # cs) =
     (if p c then [] # split_on p cs
      else (case split_on p cs of [] \<Rightarrow> [[c]] | x # xs \<Rightarrow> (c # x) # xs))"

abbreviation split_char :: "char \<Rightarrow> string \<Rightarrow> string list" where
  "split_char c \<equiv> split_on (\<lambda>x. x = c)"

fun strip_prefix :: "string \<Rightarrow> string \<Rightarrow> string option" where
  "strip_prefix [] s = Some s"
| "strip_prefix (p # ps) [] = None"
| "strip_prefix (p # ps) (c # cs) = (if p = c then strip_prefix ps cs else None)"

definition strip_suffix :: "string \<Rightarrow> string \<Rightarrow> string option" where
  "strip_suffix q s = map_option rev (strip_prefix (rev q) (rev s))"

definition starts_with :: "string \<Rightarrow> string \<Rightarrow> bool" where
  "starts_with p s = (strip_prefix p s \<noteq> None)"

fun str_contains :: "string \<Rightarrow> string \<Rightarrow> bool" where
  "str_contains p [] = (p = [])"
| "str_contains p (c # cs) = (starts_with p (c # cs) \<or> str_contains p cs)"

fun split_once :: "char \<Rightarrow> string \<Rightarrow> (string \<times> string) option" where
  "split_once d [] = None"
| "split_once d (c # cs) =
     (if c = d then Some ([], cs)
      else map_option (\<lambda>(a, b). (c # a, b)) (split_once d cs))"

fun str_find :: "char \<Rightarrow> string \<Rightarrow> nat option" where
  "str_find d [] = None"
| "str_find d (c # cs) = (if c = d then Some 0 else map_option Suc (str_find d cs))"

fun join :: "string \<Rightarrow> string list \<Rightarrow> string" where
  "join sep [] = []"
| "join sep [x] = x"
| "join sep (x # y # ys) = x @ sep @ join sep (y # ys)"

definition ascii_lower :: "char \<Rightarrow> char" where
  "ascii_lower c =
     (let n = (of_char c :: nat) in if 65 \<le> n \<and> n \<le> 90 then char_of (n + 32) else c)"

definition to_ascii_lowercase :: "string \<Rightarrow> string" where
  "to_ascii_lowercase s = map ascii_lower s"

definition is_ascii_digit :: "char \<Rightarrow> bool" where
  "is_ascii_digit c = (let n = (of_char c :: nat) in 48 \<le> n \<and> n \<le> 57)"

definition is_ascii_alphabetic :: "char \<Rightarrow> bool" where
  "is_ascii_alphabetic c =
     (let n = (of_char c :: nat) in (65 \<le> n \<and> n \<le> 90) \<or> (97 \<le> n \<and> n \<le> 122))"

definition is_ascii_alphanumeric :: "char \<Rightarrow> bool" where
  "is_ascii_alphanumeric c = (is_ascii_alphabetic c \<or> is_ascii_digit c)"

subsection \<open>Parsing and printing of unsigned integers\<close>

fun parse_digits :: "nat \<Rightarrow> string \<Rightarrow> nat option" where
  "parse_digits acc [] = Some acc"
| "parse_digits acc (c # cs) =
     (if is_ascii_digit c then parse_digits (acc * 10 + (of_char c - 48)) cs else None)"

text \<open>
  \<open>u64::from_str\<close>: an optional leading plus sign, then one or more decimal digits whose
  value fits 64 bits.
\<close>

definition parse_u64 :: "string \<Rightarrow> u64 option" where
  "parse_u64 s =
     (let ds = (case s of [] \<Rightarrow> [] | c # cs \<Rightarrow> if c = CHR ''+'' then cs else s)
      in if ds = [] then None
         else case parse_digits 0 ds of
                None \<Rightarrow> None
              | Some n \<Rightarrow> if n < 2 ^ 64 then Some (of_nat n) else None)"

fun show_nat :: "nat \<Rightarrow> string" where
  "show_nat n =
     (if n < 10 then [char_of (48 + n)] else show_nat (n div 10) @ [char_of (48 + n mod 10)])"

declare show_nat.simps [simp del]

definition u64_to_string :: "u64 \<Rightarrow> string" where
  "u64_to_string w = show_nat (unat w)"

subsection \<open>Durations and points in time\<close>

type_synonym duration = nat
type_synonym system_time = int

abbreviation nanos_per_sec :: nat where
  "nanos_per_sec \<equiv> 1000000000"

definition duration_max :: duration where
  "duration_max = (2 ^ 64 - 1) * nanos_per_sec + 999999999"

definition duration_from_secs :: "u64 \<Rightarrow> duration" where
  "duration_from_secs s = unat s * nanos_per_sec"

definition as_secs :: "duration \<Rightarrow> u64" where
  "as_secs d = of_nat (d div nanos_per_sec)"

definition duration_add :: "duration \<Rightarrow> duration \<Rightarrow> duration option" where
  "duration_add a b = (if a + b \<le> duration_max then Some (a + b) else None)"

definition duration_sub :: "duration \<Rightarrow> duration \<Rightarrow> duration option" where
  "duration_sub a b = (if b \<le> a then Some (a - b) else None)"

definition saturating_sub :: "duration \<Rightarrow> duration \<Rightarrow> duration" where
  "saturating_sub a b = (if b \<le> a then a - b else 0)"

definition duration_since :: "system_time \<Rightarrow> system_time \<Rightarrow> duration option" where
  "duration_since t earlier = (if earlier \<le> t then Some (nat (t - earlier)) else None)"

text \<open>Addition of \<open>u64\<close> values: saturating, and checked (an overflow is a panic).\<close>

definition u64_saturating_add :: "u64 \<Rightarrow> u64 \<Rightarrow> u64" where
  "u64_saturating_add a b = (if unat a + unat b < 2 ^ 64 then a + b else - 1)"

definition u64_checked_add :: "u64 \<Rightarrow> u64 \<Rightarrow> u64 option" where
  "u64_checked_add a b = (if unat a + unat b < 2 ^ 64 then Some (a + b) else None)"

definition unwrap_or :: "'a option \<Rightarrow> 'a \<Rightarrow> 'a" where
  "unwrap_or m d = (case m of None \<Rightarrow> d | Some x \<Rightarrow> x)"

definition is_some_and :: "'a option \<Rightarrow> ('a \<Rightarrow> bool) \<Rightarrow> bool" where
  "is_some_and m p = (case m of None \<Rightarrow> False | Some x \<Rightarrow> p x)"

lemma unwrap_or_simps [simp]: "unwrap_or None d = d" "unwrap_or (Some x) d = x"
  by (simp_all add: unwrap_or_def)

lemma is_some_and_simps [simp]: "\<not> is_some_and None p" "is_some_and (Some x) p = p x"
  by (simp_all add: is_some_and_def)

lemma is_some_and_iff: "is_some_and m p \<longleftrightarrow> (\<exists>x. m = Some x \<and> p x)"
  by (cases m) simp_all

subsection \<open>Lemmas: strings\<close>

lemma split_on_not_Nil [simp]: "split_on p s \<noteq> []"
  by (induction s) (auto split: list.splits)

lemma split_on_no_sep: "\<forall>c \<in> set s. \<not> p c \<Longrightarrow> split_on p s = [s]"
  by (induction s) auto

lemma split_char_no_sep [simp]: "c \<notin> set s \<Longrightarrow> split_char c s = [s]"
  by (rule split_on_no_sep) blast

lemma split_on_pieces: "x \<in> set (split_on p s) \<Longrightarrow> c \<in> set x \<Longrightarrow> \<not> p c"
proof (induction s arbitrary: x)
  case Nil
  then show ?case by simp
next
  case (Cons a s)
  then show ?case
    by (cases "split_on p s") (fastforce split: if_splits)+
qed

lemma strip_prefix_Some: "strip_prefix p s = Some r \<longleftrightarrow> s = p @ r"
  by (induction p s rule: strip_prefix.induct) auto

lemma strip_prefix_length: "strip_prefix p s = Some r \<Longrightarrow> length s = length p + length r"
  by (simp add: strip_prefix_Some)

lemma strip_suffix_Some: "strip_suffix q s = Some r \<longleftrightarrow> s = r @ q"
proof -
  have "strip_suffix q s = Some r \<longleftrightarrow> strip_prefix (rev q) (rev s) = Some (rev r)"
    by (auto simp: strip_suffix_def)
  also have "\<dots> \<longleftrightarrow> s = r @ q"
    by (simp add: strip_prefix_Some flip: rev_append)
  finally show ?thesis .
qed

lemma starts_with_iff: "starts_with p s \<longleftrightarrow> (\<exists>r. s = p @ r)"
  by (auto simp: starts_with_def simp flip: strip_prefix_Some)

lemma str_contains_iff: "str_contains p s \<longleftrightarrow> (\<exists>a b. s = a @ p @ b)"
proof (induction s)
  case Nil
  then show ?case by simp
next
  case (Cons c s)
  show ?case
  proof
    assume "str_contains p (c # s)"
    then show "\<exists>a b. c # s = a @ p @ b"
      using Cons.IH by (metis append_Cons append_Nil starts_with_iff str_contains.simps(2))
  next
    assume "\<exists>a b. c # s = a @ p @ b"
    then obtain a b where ab: "c # s = a @ p @ b" by blast
    show "str_contains p (c # s)"
    proof (cases a)
      case Nil
      with ab have "starts_with p (c # s)" by (auto simp: starts_with_iff)
      then show ?thesis by simp
    next
      case (Cons x xs)
      with ab have "s = xs @ p @ b" by simp
      with Cons.IH show ?thesis by auto
    qed
  qed
qed

lemma str_find_Some:
  "str_find d s = Some i \<Longrightarrow> i < length s \<and> s ! i = d \<and> d \<notin> set (take i s)"
  by (induction d s arbitrary: i rule: str_find.induct) (auto split: if_splits)

lemma str_find_append: "d \<notin> set a \<Longrightarrow> str_find d (a @ d # b) = Some (length a)"
  by (induction a) auto

lemma length_trim_start: "length (trim_start s) \<le> length s"
  by (simp add: trim_start_def length_dropWhile_le)

lemma trim_start_id: "s = [] \<or> \<not> is_whitespace (hd s) \<Longrightarrow> trim_start s = s"
  by (cases s) (auto simp: trim_start_def)

lemma trim_end_id: "s = [] \<or> \<not> is_whitespace (last s) \<Longrightarrow> trim_end s = s"
  by (cases s rule: rev_cases) (auto simp: trim_end_def)

lemma trim_id: "\<forall>c \<in> set s. \<not> is_whitespace c \<Longrightarrow> trim s = s"
  by (cases "s = []") (auto simp: trim_def trim_start_id trim_end_id)

lemma ascii_lower_idem [simp]: "ascii_lower (ascii_lower c) = ascii_lower c"
  by (auto simp: ascii_lower_def Let_def)

lemma to_ascii_lowercase_idem [simp]:
  "to_ascii_lowercase (to_ascii_lowercase s) = to_ascii_lowercase s"
  by (simp add: to_ascii_lowercase_def)

subsection \<open>Lemmas: printing and parsing\<close>

lemma unat_u64_less: "unat (w :: u64) < 2 ^ 64"
proof -
  have "(unsigned w :: nat) < 2 ^ LENGTH(64)"
    by (rule unsigned_less)
  then show ?thesis by simp
qed

lemma unat_add_u64: "unat a + unat b < 2 ^ 64 \<Longrightarrow> unat ((a :: u64) + b) = unat a + unat b"
  by (simp add: unat_word_ariths(1))

lemma u64_saturating_add_le:
  assumes "u64_saturating_add a b \<le> c" and "c < - 1"
  shows "unat a + unat b < 2 ^ 64 \<and> unat a + unat b \<le> unat c"
proof -
  have "unat a + unat b < 2 ^ 64"
    using assms by (auto simp: u64_saturating_add_def split: if_splits)
  then show ?thesis
    using assms(1) unat_add_u64 [of a b] by (simp add: u64_saturating_add_def word_le_nat_alt)
qed

lemma unat_of_nat_u64: "n < 2 ^ 64 \<Longrightarrow> unat (word_of_nat n :: u64) = n"
  by (simp add: unat_of_nat)

lemma parse_digits_append:
  "parse_digits acc (xs @ ys) = Option.bind (parse_digits acc xs) (\<lambda>a. parse_digits a ys)"
  by (induction xs arbitrary: acc) auto

lemma digit_char [simp]:
  fixes n :: nat
  assumes "n < 10"
  shows "is_ascii_digit (char_of (48 + n))" "of_char (char_of (48 + n)) - 48 = n"
  using assms by (simp_all add: is_ascii_digit_def Let_def)

lemma parse_digits_show_nat: "parse_digits 0 (show_nat n) = Some n"
proof (induction n rule: show_nat.induct)
  case (1 n)
  show ?case
  proof (cases "n < 10")
    case True
    then show ?thesis by (subst show_nat.simps) simp
  next
    case False
    then show ?thesis
      using 1 by (subst show_nat.simps) (simp add: parse_digits_append)
  qed
qed

lemma show_nat_digits: "c \<in> set (show_nat n) \<Longrightarrow> is_ascii_digit c"
proof (induction n rule: show_nat.induct)
  case (1 n)
  then show ?case
    by (cases "n < 10") (auto simp: show_nat.simps [of n])
qed

lemma show_nat_not_Nil [simp]: "show_nat n \<noteq> []"
  by (subst show_nat.simps) simp

lemma is_ascii_digit_not_special:
  "is_ascii_digit c \<Longrightarrow> c \<noteq> CHR ''+'' \<and> c \<noteq> CHR '','' \<and> c \<noteq> CHR '';'' \<and> \<not> is_whitespace c"
  by (auto simp: is_ascii_digit_def is_whitespace_def Let_def)

lemma parse_u64_show_nat:
  "parse_u64 (show_nat n) = (if n < 2 ^ 64 then Some (of_nat n) else None)"
proof -
  obtain c cs where s: "show_nat n = c # cs" by (cases "show_nat n") simp_all
  have "c \<noteq> CHR ''+''" using show_nat_digits [of c n] is_ascii_digit_not_special s by simp
  then show ?thesis
    using parse_digits_show_nat [of n] s by (simp add: parse_u64_def del: parse_digits.simps)
qed

text \<open>What \<open>u64::to_string\<close> prints, \<open>u64::from_str\<close> reads back.\<close>

lemma parse_u64_to_string [simp]: "parse_u64 (u64_to_string w) = Some w"
  using unat_u64_less [of w] by (simp add: u64_to_string_def parse_u64_show_nat)

lemma parse_digits_None: "c \<in> set s \<Longrightarrow> \<not> is_ascii_digit c \<Longrightarrow> parse_digits acc s = None"
  by (induction s arbitrary: acc) auto

lemma parse_u64_None:
  assumes "c \<in> set s" and "\<not> is_ascii_digit c" and "c \<noteq> CHR ''+''"
  shows "parse_u64 s = None"
  using assms parse_digits_None [of c] by (cases s) (auto simp: parse_u64_def simp del: parse_digits.simps)

lemma trim_padded:
  assumes "\<forall>c \<in> set ws \<union> set ws'. is_whitespace c" and "\<forall>c \<in> set s. \<not> is_whitespace c" and "s \<noteq> []"
  shows "trim (ws @ s @ ws') = s"
proof -
  have "trim_start (ws @ s @ ws') = s @ ws'"
    using assms by (cases s) (simp_all add: trim_start_def dropWhile_append1 dropWhile_append2)
  moreover have "trim_end (s @ ws') = s"
  proof -
    have "dropWhile is_whitespace (rev ws' @ rev s) = dropWhile is_whitespace (rev s)"
      using assms(1) by (intro dropWhile_append2) auto
    also have "\<dots> = rev s"
      using assms(2,3) by (cases s rule: rev_cases) auto
    finally show ?thesis by (simp add: trim_end_def)
  qed
  ultimately show ?thesis by (simp add: trim_def)
qed

lemma set_dropWhile_keep: "x \<in> set xs \<Longrightarrow> \<not> q x \<Longrightarrow> x \<in> set (dropWhile q xs)"
  by (induction xs) auto

lemma trim_keeps: "c \<in> set s \<Longrightarrow> \<not> is_whitespace c \<Longrightarrow> c \<in> set (trim s)"
  by (simp add: trim_def trim_start_def trim_end_def set_dropWhile_keep)

lemma split_on_takeWhile: "hd (split_on q s) = takeWhile (\<lambda>c. \<not> q c) s"
proof (induction s)
  case (Cons c s)
  then show ?case by (cases "split_on q s") auto
qed simp

subsection \<open>Lemmas: durations\<close>

lemma duration_from_secs_le [simp]: "duration_from_secs s \<le> duration_max"
proof -
  have "unat s < 2 ^ 64"
    by (rule unat_u64_less)
  then show ?thesis
    by (simp add: duration_from_secs_def duration_max_def)
qed

lemma unat_as_secs: "d \<le> duration_max \<Longrightarrow> unat (as_secs d) = d div nanos_per_sec"
proof -
  assume "d \<le> duration_max"
  then have "d div nanos_per_sec < 2 ^ 64"
    by (simp add: duration_max_def div_less_iff_less_mult)
  then show ?thesis
    by (simp add: as_secs_def unat_of_nat take_bit_nat_eq_self)
qed

lemma as_secs_from_secs [simp]: "as_secs (duration_from_secs s) = s"
  by (simp add: as_secs_def duration_from_secs_def)

lemma saturating_sub_nat [simp]: "saturating_sub a b = a - b"
  by (simp add: saturating_sub_def)

lemma duration_add_Some: "duration_add a b = Some c \<longleftrightarrow> c = a + b \<and> a + b \<le> duration_max"
  by (auto simp: duration_add_def)

lemma duration_add_None: "duration_add a b = None \<longleftrightarrow> duration_max < a + b"
  by (auto simp: duration_add_def)

lemma duration_sub_Some: "duration_sub a b = Some c \<longleftrightarrow> b \<le> a \<and> c = a - b"
  by (auto simp: duration_sub_def)

lemma duration_since_Some:
  "duration_since t e = Some d \<longleftrightarrow> e \<le> t \<and> int d = t - e"
  by (auto simp: duration_since_def)

lemma bind_Some_iff: "Option.bind m f = Some y \<longleftrightarrow> (\<exists>x. m = Some x \<and> f x = Some y)"
  by (cases m) simp_all

lemma find_map_eq: "find P (map f xs) = map_option f (find (P \<circ> f) xs)"
  by (induction xs) auto

lemma in_set_map_filter: "x \<in> set (List.map_filter f xs) \<longleftrightarrow> (\<exists>y \<in> set xs. f y = Some x)"
  by (induction xs) (auto simp: List.map_filter_def)

end
