(* ===== verification/Http.thy ===== *)
theory Http
  imports Prelude "HOL-Library.AList"
begin

section \<open>The interface to the crates the cache is built on\<close>

text \<open>
  \<open>trillium_http\<close>, \<open>trillium_caching_headers\<close>, \<open>httpdate\<close> and \<open>url\<close> are not part of the
  repository. What the cache uses of them is the record \<open>'h ext\<close> of functions over an
  opaque type \<open>'h\<close> of header maps; every definition of the development that calls them
  takes such a record as its first argument. What their documentation promises is stated
  by the predicates \<open>headers_laws\<close>, \<open>name_laws\<close>, \<open>cache_control_laws\<close> and
  \<open>status_laws\<close>, which a theorem that relies on them has as a named hypothesis.
  A parsed \<open>CacheControlHeader\<close> is the record of the answers its accessors give.
  A \<open>Url\<close> is its serialisation, a \<open>Status\<close> its code.
\<close>

datatype http_method = Get | Head | Post | Put | OtherMethod string

type_synonym status = u16
type_synonym url = string

abbreviation NotModified_status :: status where
  "NotModified_status \<equiv> 304"

datatype known_header_name =
    Accept | AcceptEncoding | AcceptRanges | Age | Authorization | CacheControl
  | CdnCacheControl | Connection | ContentEncoding | ContentLength | ContentLocation
  | ContentRange | Date | Etag | Expires | IfMatch | IfModifiedSince | IfNoneMatch
  | IfRange | IfUnmodifiedSince | KeepAlive | LastModified | Location | Pragma
  | ProxyAuthenticate | ProxyAuthorization | SetCookie | Te | Trailer
  | TransferEncoding | Upgrade | Vary

datatype header_name = Known known_header_name | UnknownName string

text \<open>A header value is text, or bytes that are not UTF-8 (for which \<open>as_str\<close> is \<open>None\<close>).\<close>

datatype header_value = Utf8 string | NotUtf8 bytes

fun as_str :: "header_value \<Rightarrow> string option" where
  "as_str (Utf8 s) = Some s"
| "as_str (NotUtf8 b) = None"

record cache_control =
  is_no_cache :: bool
  is_no_store :: bool
  is_private :: bool
  is_public :: bool
  is_immutable :: bool
  is_proxy_revalidate :: bool
  must_revalidate :: bool
  cc_max_age :: "duration option"
  s_maxage :: "duration option"
  min_fresh :: "duration option"
  max_stale :: "duration option option"
  stale_while_revalidate :: "duration option"
  stale_if_error :: "duration option"
  cc_is_empty :: bool

record 'h ext =
  headers_new :: 'h
  headers_get_values :: "'h \<Rightarrow> header_name \<Rightarrow> header_value list option"
  headers_get_str :: "'h \<Rightarrow> header_name \<Rightarrow> string option"
  headers_has_header :: "'h \<Rightarrow> header_name \<Rightarrow> bool"
  headers_insert :: "'h \<Rightarrow> header_name \<Rightarrow> header_value list \<Rightarrow> 'h"
  headers_remove :: "'h \<Rightarrow> header_name \<Rightarrow> 'h"
  headers_remove_all :: "'h \<Rightarrow> header_name list \<Rightarrow> 'h"
  headers_iter :: "'h \<Rightarrow> (header_name \<times> header_value list) list"
  header_name_from :: "string \<Rightarrow> header_name"
  headers_cache_control :: "'h \<Rightarrow> cache_control option"
  headers_cdn_cache_control :: "'h \<Rightarrow> cache_control option"
  cc_from_no_cache :: cache_control
  parse_http_date :: "string \<Rightarrow> system_time option"
  method_is_safe :: "http_method \<Rightarrow> bool"
  status_is_success :: "status \<Rightarrow> bool"
  status_is_redirection :: "status \<Rightarrow> bool"
  status_is_server_error :: "status \<Rightarrow> bool"
  url_parse :: "string \<Rightarrow> url option"
  url_join :: "url \<Rightarrow> string \<Rightarrow> url option"
  url_host_str :: "url \<Rightarrow> string option"

subsection \<open>Documented behaviour\<close>

text \<open>
  A header map is a finite map from names to lists of values. \<open>get_str\<close> answers for
  single-valued headers only (\<open>HeaderValues::one\<close>).
\<close>

definition headers_laws :: "'h ext \<Rightarrow> bool" where
  "headers_laws E \<longleftrightarrow>
     (\<forall>n. headers_get_values E (headers_new E) n = None) \<and>
     (\<forall>h n vs m. headers_get_values E (headers_insert E h n vs) m =
        (if m = n then Some vs else headers_get_values E h m)) \<and>
     (\<forall>h n m. headers_get_values E (headers_remove E h n) m =
        (if m = n then None else headers_get_values E h m)) \<and>
     (\<forall>h ns m. headers_get_values E (headers_remove_all E h ns) m =
        (if m \<in> set ns then None else headers_get_values E h m)) \<and>
     (\<forall>h n. headers_has_header E h n = (headers_get_values E h n \<noteq> None)) \<and>
     (\<forall>h n. headers_get_str E h n =
        (case headers_get_values E h n of Some [v] \<Rightarrow> as_str v | _ \<Rightarrow> None)) \<and>
     (\<forall>h. distinct (map fst (headers_iter E h))) \<and>
     (\<forall>h. map_of (headers_iter E h) = headers_get_values E h)"

text \<open>Header names are case-insensitive.\<close>

definition name_laws :: "'h ext \<Rightarrow> bool" where
  "name_laws E \<longleftrightarrow>
     (\<forall>s. header_name_from E (to_ascii_lowercase s) = header_name_from E s)"

text \<open>
  The parsed \<open>Cache-Control\<close> and \<open>CDN-Cache-Control\<close> depend on those header fields alone,
  and the header built from the \<open>NoCache\<close> directive says \<open>no-cache\<close>.
\<close>

definition cache_control_laws :: "'h ext \<Rightarrow> bool" where
  "cache_control_laws E \<longleftrightarrow>
     (\<forall>h h'. headers_get_values E h (Known CacheControl) = headers_get_values E h' (Known CacheControl)
        \<longrightarrow> headers_cache_control E h = headers_cache_control E h') \<and>
     (\<forall>h h'. headers_get_values E h (Known CdnCacheControl) = headers_get_values E h' (Known CdnCacheControl)
        \<longrightarrow> headers_cdn_cache_control E h = headers_cdn_cache_control E h') \<and>
     is_no_cache (cc_from_no_cache E)"

text \<open>The classes of status codes, and the safe methods of RFC 9110.\<close>

definition status_laws :: "'h ext \<Rightarrow> bool" where
  "status_laws E \<longleftrightarrow>
     (\<forall>s. status_is_success E s = (200 \<le> s \<and> s < 300)) \<and>
     (\<forall>s. status_is_redirection E s = (300 \<le> s \<and> s < 400)) \<and>
     (\<forall>s. status_is_server_error E s = (500 \<le> s \<and> s < 600)) \<and>
     method_is_safe E Get \<and> method_is_safe E Head \<and>
     \<not> method_is_safe E Post \<and> \<not> method_is_safe E Put"

lemma headers_laws_simps:
  assumes "headers_laws E"
  shows "headers_get_values E (headers_new E) n = None"
    and "headers_get_values E (headers_insert E h n vs) m =
          (if m = n then Some vs else headers_get_values E h m)"
    and "headers_get_values E (headers_remove E h n) m =
          (if m = n then None else headers_get_values E h m)"
    and "headers_get_values E (headers_remove_all E h ns) m =
          (if m \<in> set ns then None else headers_get_values E h m)"
    and "headers_has_header E h n = (headers_get_values E h n \<noteq> None)"
    and "headers_get_str E h n =
          (case headers_get_values E h n of Some [v] \<Rightarrow> as_str v | _ \<Rightarrow> None)"
    and "distinct (map fst (headers_iter E h))"
    and "map_of (headers_iter E h) = headers_get_values E h"
  using assms by (simp_all add: headers_laws_def)

lemma as_str_case: "as_str v = (case v of Utf8 s \<Rightarrow> Some s | NotUtf8 b \<Rightarrow> None)"
  by (cases v) simp_all

lemma get_str_cong:
  assumes "headers_laws E" and "headers_get_values E h n = headers_get_values E h' m"
  shows "headers_get_str E h n = headers_get_str E h' m"
  using assms by (simp add: headers_laws_simps)

lemma get_str_insert:
  assumes "headers_laws E"
  shows "headers_get_str E (headers_insert E h n [Utf8 s]) m =
           (if m = n then Some s else headers_get_str E h m)"
  using assms by (simp add: headers_laws_simps)

lemma get_str_remove:
  assumes "headers_laws E"
  shows "headers_get_str E (headers_remove E h n) m =
           (if m = n then None else headers_get_str E h m)"
  using assms by (simp add: headers_laws_simps)

lemma get_str_remove_all:
  assumes "headers_laws E"
  shows "headers_get_str E (headers_remove_all E h ns) m =
           (if m \<in> set ns then None else headers_get_str E h m)"
  using assms by (simp add: headers_laws_simps)

text \<open>Removing the names of a list one after the other.\<close>

lemma get_values_foldl_remove:
  assumes "headers_laws E"
  shows "headers_get_values E (foldl (headers_remove E) h ns) m =
           (if m \<in> set ns then None else headers_get_values E h m)"
  by (induction ns arbitrary: h) (auto simp: headers_laws_simps [OF assms])

text \<open>
  Inserting the pairs of a list with distinct names one after the other, skipping the names
  that satisfy \<open>p\<close>.
\<close>

lemma get_values_foldl_insert:
  assumes "headers_laws E" and "distinct (map fst xs)"
  shows "headers_get_values E
           (foldl (\<lambda>out (n, vs). if p n then out else headers_insert E out n vs) h xs) m =
         (if p m then headers_get_values E h m
          else case map_of xs m of None \<Rightarrow> headers_get_values E h m | Some vs \<Rightarrow> Some vs)"
  using assms(2)
proof (induction xs arbitrary: h)
  case Nil
  then show ?case by simp
next
  case (Cons x xs)
  obtain n vs where x: "x = (n, vs)" by (cases x)
  have n: "map_of xs n = None"
    using Cons.prems x by (simp add: map_of_eq_None_iff)
  show ?case
    using Cons.prems Cons.IH x n
    by (auto simp: headers_laws_simps [OF assms(1)] split: option.splits)
qed

end
