(* ===== verification/Rust_Float.thy ===== *)
theory Rust_Float
  imports Prelude
begin

section \<open>The floating-point expression of heuristic freshness\<close>

text \<open>
  \<open>CachePolicy::max_age\<close> computes \<open>(secs as f64 * f64::from(ratio)) as u64\<close> for a \<open>u64\<close>
  number of seconds and an \<open>f32\<close> ratio. An \<open>f32\<close> is its 32 bits. The value of a finite
  float is a sign, a natural significand and a power of two. Since \<open>secs < 2 ^ 64\<close> and the
  magnitude of a non-zero finite \<open>f32\<close> lies between \<open>2 ^ -149\<close> and \<open>2 ^ 128\<close>, no
  intermediate \<open>f64\<close> overflows or becomes subnormal, so rounding to 53 significant bits
  (to nearest, ties to even) is all that \<open>f64\<close> arithmetic does here.
\<close>

datatype float_value = Finite bool nat int | Infinite bool | NotANumber

definition f32_value :: "u32 \<Rightarrow> float_value" where
  "f32_value w =
     (let n = unat w;
          neg = (n div 2 ^ 31 = 1);
          e = (n div 2 ^ 23) mod 2 ^ 8;
          f = n mod 2 ^ 23
      in if e = 255 then (if f = 0 then Infinite neg else NotANumber)
         else if e = 0 then Finite neg f (-149)
         else Finite neg (2 ^ 23 + f) (int e - 150))"

fun bit_length :: "nat \<Rightarrow> nat" where
  "bit_length n = (if n = 0 then 0 else Suc (bit_length (n div 2)))"

declare bit_length.simps [simp del]

text \<open>\<open>round53 m = (q, k)\<close>: the closest number with a 53-bit significand is \<open>q * 2 ^ k\<close>.\<close>

definition round53 :: "nat \<Rightarrow> nat \<times> nat" where
  "round53 m =
     (let k = bit_length m - 53
      in if k = 0 then (m, 0)
         else let q = m div 2 ^ k; r = m mod 2 ^ k; half = 2 ^ (k - 1)
              in if half < r \<or> (r = half \<and> odd q) then (q + 1, k) else (q, k))"

definition trunc_scaled :: "nat \<Rightarrow> int \<Rightarrow> nat" where
  "trunc_scaled m e = (if 0 \<le> e then m * 2 ^ nat e else m div 2 ^ nat (- e))"

definition saturate_u64 :: "nat \<Rightarrow> u64" where
  "saturate_u64 n = (if n < 2 ^ 64 then of_nat n else - 1)"

definition f64_scale_as_u64 :: "u64 \<Rightarrow> u32 \<Rightarrow> u64" where
  "f64_scale_as_u64 secs ratio =
     (case f32_value ratio of
        NotANumber \<Rightarrow> 0
      | Infinite neg \<Rightarrow> if secs = 0 \<or> neg then 0 else - 1
      | Finite neg m e \<Rightarrow>
          if neg then 0
          else let (a, j) = round53 (unat secs); (q, k) = round53 (a * m)
               in saturate_u64 (trunc_scaled q (int j + int k + e)))"

text \<open>The bits of the default ratio \<open>0.1_f32\<close>.\<close>

definition f32_one_tenth :: u32 where
  "f32_one_tenth = 0x3DCCCCCD"

subsection \<open>Exactness below 53 bits\<close>

lemma bit_length_le: "m < 2 ^ k \<Longrightarrow> bit_length m \<le> k"
proof (induction k arbitrary: m)
  case 0
  then show ?case by (simp add: bit_length.simps [of 0])
next
  case (Suc k)
  then have "bit_length (m div 2) \<le> k" by auto
  then show ?case by (simp add: bit_length.simps [of m])
qed

lemma round53_exact: "m < 2 ^ 53 \<Longrightarrow> round53 m = (m, 0)"
  using bit_length_le [of m 53] by (simp add: round53_def)

lemma f64_scale_exact:
  assumes "f32_value ratio = Finite False m e" and "unat secs * m < 2 ^ 53" and "0 < m"
  shows "f64_scale_as_u64 secs ratio = saturate_u64 (trunc_scaled (unat secs * m) e)"
proof -
  have "unat secs \<le> unat secs * m" using assms(3) by simp
  then have "unat secs < 2 ^ 53" using assms(2) by linarith
  then show ?thesis
    using assms by (simp add: f64_scale_as_u64_def round53_exact)
qed

lemma f32_one_tenth_value: "f32_value f32_one_tenth = Finite False 13421773 (- 27)"
  by (simp add: f32_value_def f32_one_tenth_def Let_def)

lemma f64_scale_one_tenth:
  assumes "unat secs < 2 ^ 29"
  shows "unat (f64_scale_as_u64 secs f32_one_tenth) = unat secs * 13421773 div 134217728"
proof -
  have small: "unat secs * 13421773 < 2 ^ 53"
    using assms by simp
  then have "f64_scale_as_u64 secs f32_one_tenth
      = saturate_u64 (unat secs * 13421773 div 134217728)"
    using f64_scale_exact [OF f32_one_tenth_value] by (simp add: trunc_scaled_def)
  moreover have "unat secs * 13421773 div 134217728 < 2 ^ 64"
    using small by (simp add: div_less_iff_less_mult)
  ultimately show ?thesis
    by (simp add: saturate_u64_def unat_of_nat take_bit_nat_eq_self)
qed

text \<open>The significand of \<open>0.1_f32\<close> over its power of two is a tenth up to one second.\<close>

lemma one_tenth_div:
  fixes s :: nat
  assumes "s < 2 ^ 29"
  shows "s div 10 \<le> s * 13421773 div 134217728 \<and> s * 13421773 div 134217728 \<le> s div 10 + 1"
proof
  define q r where "q = s div 10" and "r = s mod 10"
  have s: "s = 10 * q + r" and r: "r < 10"
    by (simp_all add: q_def r_def)
  have q: "q < 53687092" using assms s by simp
  have "q * 134217728 \<le> s * 13421773"
    by (simp add: s)
  then show "s div 10 \<le> s * 13421773 div 134217728"
    by (simp add: q_def less_eq_div_iff_mult_less_eq)
  have "s * 13421773 < (q + 2) * 134217728"
    using q r by (simp add: s)
  then have "s * 13421773 div 134217728 < q + 2"
    by (simp add: div_less_iff_less_mult)
  then show "s * 13421773 div 134217728 \<le> s div 10 + 1"
    by (simp add: q_def)
qed

end
