(* ===== verification/Reference_Env.thy ===== *)
theory Reference_Env
  imports Http
begin

section \<open>An executable instance of the interface\<close>

text \<open>
  A concrete \<open>'h ext\<close> that satisfies every documented law, used by the witnesses: header
  maps are association lists, \<open>Cache-Control\<close> is read by a small directive parser, dates are
  decimal numbers of seconds since the epoch and URLs are plain text. It is no model of the
  crates it stands for; it shows that the laws the theorems assume can hold together.
\<close>

type_synonym hmap = "(header_name \<times> header_value list) list"

definition ref_get_values :: "hmap \<Rightarrow> header_name \<Rightarrow> header_value list option" where
  "ref_get_values h n = map_of h n"

definition ref_get_str :: "hmap \<Rightarrow> header_name \<Rightarrow> string option" where
  "ref_get_str h n = (case map_of h n of Some [v] \<Rightarrow> as_str v | _ \<Rightarrow> None)"

definition ref_remove_all :: "hmap \<Rightarrow> header_name list \<Rightarrow> hmap" where
  "ref_remove_all h ns = filter (\<lambda>(n, _). n \<notin> set ns) h"

definition ref_insert :: "hmap \<Rightarrow> header_name \<Rightarrow> header_value list \<Rightarrow> hmap" where
  "ref_insert h n vs = (n, vs) # ref_remove_all h [n]"

definition ref_names :: "(string \<times> header_name) list" where
  "ref_names =
     [(''connection'', Known Connection), (''vary'', Known Vary), (''accept'', Known Accept),
      (''accept-encoding'', Known AcceptEncoding), (''keep-alive'', Known KeepAlive),
      (''upgrade'', Known Upgrade), (''te'', Known Te), (''if-none-match'', Known IfNoneMatch)]"

definition ref_name_from :: "string \<Rightarrow> header_name" where
  "ref_name_from s =
     (let l = to_ascii_lowercase s
      in case map_of ref_names l of Some n \<Rightarrow> n | None \<Rightarrow> UnknownName l)"

definition cc_default :: cache_control where
  "cc_default =
     \<lparr>is_no_cache = False, is_no_store = False, is_private = False, is_public = False,
      is_immutable = False, is_proxy_revalidate = False, must_revalidate = False,
      cc_max_age = None, s_maxage = None, min_fresh = None, max_stale = None,
      stale_while_revalidate = None, stale_if_error = None, cc_is_empty = True\<rparr>"

definition directive_secs :: "string \<Rightarrow> string list \<Rightarrow> duration option" where
  "directive_secs name ds =
     (case List.map_filter (strip_prefix (name @ ''='')) ds of
        [] \<Rightarrow> None
      | v # _ \<Rightarrow> map_option duration_from_secs (parse_u64 v))"

definition ref_parse_cc :: "string \<Rightarrow> cache_control" where
  "ref_parse_cc s =
     (let ds = map trim (split_char (CHR '','') (to_ascii_lowercase s))
      in \<lparr>is_no_cache = (''no-cache'' \<in> set ds), is_no_store = (''no-store'' \<in> set ds),
          is_private = (''private'' \<in> set ds), is_public = (''public'' \<in> set ds),
          is_immutable = (''immutable'' \<in> set ds),
          is_proxy_revalidate = (''proxy-revalidate'' \<in> set ds),
          must_revalidate = (''must-revalidate'' \<in> set ds),
          cc_max_age = directive_secs ''max-age'' ds,
          s_maxage = directive_secs ''s-maxage'' ds,
          min_fresh = directive_secs ''min-fresh'' ds,
          max_stale = (if ''max-stale'' \<in> set ds then Some None
                       else map_option Some (directive_secs ''max-stale'' ds)),
          stale_while_revalidate = directive_secs ''stale-while-revalidate'' ds,
          stale_if_error = directive_secs ''stale-if-error'' ds,
          cc_is_empty = (trim s = [])\<rparr>)"

definition ref_cc :: "known_header_name \<Rightarrow> hmap \<Rightarrow> cache_control option" where
  "ref_cc name h = map_option ref_parse_cc (ref_get_str h (Known name))"

definition ref_date :: "string \<Rightarrow> system_time option" where
  "ref_date s = map_option (\<lambda>w. int (unat w) * 1000000000) (parse_u64 s)"

definition ref_host :: "url \<Rightarrow> string option" where
  "ref_host u =
     map_option (takeWhile (\<lambda>c. c \<noteq> CHR ''/'')) (strip_prefix ''http://'' u)"

definition ref_join :: "url \<Rightarrow> string \<Rightarrow> url option" where
  "ref_join base s =
     (if starts_with ''http://'' s then Some s
      else map_option (\<lambda>host. ''http://'' @ host @ s) (ref_host base))"

definition ref_env :: "hmap ext" where
  "ref_env =
     \<lparr>headers_new = [],
      headers_get_values = ref_get_values,
      headers_get_str = ref_get_str,
      headers_has_header = (\<lambda>h n. ref_get_values h n \<noteq> None),
      headers_insert = ref_insert,
      headers_remove = (\<lambda>h n. ref_remove_all h [n]),
      headers_remove_all = ref_remove_all,
      headers_iter = AList.clearjunk,
      header_name_from = ref_name_from,
      headers_cache_control = ref_cc CacheControl,
      headers_cdn_cache_control = ref_cc CdnCacheControl,
      cc_from_no_cache = ref_parse_cc ''no-cache'',
      parse_http_date = ref_date,
      method_is_safe = (\<lambda>m. m = Get \<or> m = Head \<or> m = OtherMethod ''OPTIONS''),
      status_is_success = (\<lambda>s. 200 \<le> s \<and> s < 300),
      status_is_redirection = (\<lambda>s. 300 \<le> s \<and> s < 400),
      status_is_server_error = (\<lambda>s. 500 \<le> s \<and> s < 600),
      url_parse = Some,
      url_join = ref_join,
      url_host_str = ref_host\<rparr>"

lemma map_of_ref_remove_all:
  "map_of (ref_remove_all h ns) m = (if m \<in> set ns then None else map_of h m)"
  by (induction h) (auto simp: ref_remove_all_def)

lemma ref_env_headers_laws: "headers_laws ref_env"
  by (simp add: headers_laws_def ref_env_def ref_get_values_def ref_get_str_def
      ref_insert_def map_of_ref_remove_all distinct_clearjunk map_of_clearjunk fun_eq_iff)

lemma ref_env_name_laws: "name_laws ref_env"
  by (simp add: name_laws_def ref_env_def ref_name_from_def)

lemma ref_env_cache_control_laws: "cache_control_laws ref_env"
proof -
  have "is_no_cache (ref_parse_cc ''no-cache'')" by code_simp
  then show ?thesis
    by (simp add: cache_control_laws_def ref_env_def ref_cc_def ref_get_str_def ref_get_values_def)
qed

lemma ref_env_status_laws: "status_laws ref_env"
  by (simp add: status_laws_def ref_env_def)

lemmas ref_env_laws = ref_env_headers_laws ref_env_name_laws ref_env_cache_control_laws
  ref_env_status_laws

end
