(* ===== verification/Policy.thy ===== *)
theory Policy
  imports Http Rust_Float Reference_Env
begin

section \<open>Stored cache policies (\<open>src/policy.rs\<close>)\<close>

text \<open>
  The value type of a captured exchange: the options of the cache, the effective response
  \<open>Cache-Control\<close> with the targeted-field override of RFC 9213, the snapshot of the request
  headers named by \<open>Vary\<close>, and the on-disk form of a policy. The lemmas show when a targeted
  field takes effect, that several \<open>Vary\<close> lines count as one, that every policy the code
  builds is well formed (its derived fields agree with its headers), and that a well-formed
  policy survives the conversion to its on-disk form and back.
\<close>

record cache_options =
  shared :: bool
  cache_heuristic :: u32
  immutable_min_time_to_live :: duration

definition cache_options_default :: cache_options where
  "cache_options_default =
     \<lparr>shared = False, cache_heuristic = f32_one_tenth,
      immutable_min_time_to_live = duration_from_secs (24 * 3600)\<rparr>"

record 'h cache_policy =
  request_method :: http_method
  vary_snapshot :: "(string \<times> string option) list"
  response_status :: status
  response_headers :: 'h
  response_cache_control :: "cache_control option"
  targeted_cc_in_effect :: bool
  response_time :: system_time
  options :: cache_options

subsection \<open>Targeted cache control\<close>

definition is_valid_sf_key :: "string \<Rightarrow> bool" where
  "is_valid_sf_key s =
     (case s of
        [] \<Rightarrow> False
      | first # chars \<Rightarrow>
          if \<not> is_ascii_alphabetic first \<and> first \<noteq> CHR ''*'' then False
          else list_all (\<lambda>c. is_ascii_alphanumeric c
                 \<or> c = CHR ''_'' \<or> c = CHR ''-'' \<or> c = CHR ''.'' \<or> c = CHR ''*'') chars)"

definition looks_like_valid_sf_dictionary :: "string \<Rightarrow> bool" where
  "looks_like_valid_sf_dictionary s =
     (let s = trim s
      in if s = [] then False
         else list_all (\<lambda>member.
                let member = trim member
                in if member = [] then False
                   else let key = trim_end (case split_once (CHR ''='') member of
                                              None \<Rightarrow> member | Some (k, _) \<Rightarrow> k)
                        in is_valid_sf_key key)
              (split_char (CHR '','') s))"

definition effective_response_cache_control ::
  "'h ext \<Rightarrow> 'h \<Rightarrow> cache_options \<Rightarrow> cache_control option \<times> bool" where
  "effective_response_cache_control E headers opts =
     (let fallback = (headers_cache_control E headers, False)
      in if shared opts then
           (case headers_get_str E headers (Known CdnCacheControl) of
              None \<Rightarrow> fallback
            | Some raw \<Rightarrow>
                if looks_like_valid_sf_dictionary raw then
                  (case headers_cdn_cache_control E headers of
                     None \<Rightarrow> fallback
                   | Some cdn_cc \<Rightarrow>
                       if \<not> cc_is_empty cdn_cc then (Some cdn_cc, True) else fallback)
                else fallback)
         else fallback)"

definition derive_response_cache_control ::
  "'h ext \<Rightarrow> 'h \<Rightarrow> cache_options \<Rightarrow> cache_control option \<times> bool" where
  "derive_response_cache_control E headers opts =
     (let (cc, targeted) = effective_response_cache_control E headers opts
      in if cc = None \<and>
            is_some_and (headers_get_str E headers (Known Pragma)) (str_contains ''no-cache'')
         then (Some (cc_from_no_cache E), targeted)
         else (cc, targeted))"

subsection \<open>The \<open>Vary\<close> snapshot and policy construction\<close>

definition vary_names :: "header_value list \<Rightarrow> string list" where
  "vary_names values =
     filter (\<lambda>n. n \<noteq> [])
       (map trim (concat (map (split_char (CHR '','')) (List.map_filter as_str values))))"

definition build_vary_snapshot ::
  "'h ext \<Rightarrow> 'h \<Rightarrow> 'h \<Rightarrow> (string \<times> string option) list" where
  "build_vary_snapshot E response_hs request_hs =
     (case headers_get_values E response_hs (Known Vary) of
        None \<Rightarrow> []
      | Some values \<Rightarrow>
          map (\<lambda>name. let lower = to_ascii_lowercase name
                      in (lower, headers_get_str E request_hs (header_name_from E lower)))
            (vary_names values))"

definition policy_new ::
  "'h ext \<Rightarrow> http_method \<Rightarrow> 'h \<Rightarrow> status \<Rightarrow> 'h \<Rightarrow> system_time \<Rightarrow> cache_options \<Rightarrow> 'h cache_policy" where
  "policy_new E meth request_hs st response_hs time opts =
     (let (cc, targeted) = derive_response_cache_control E response_hs opts;
          snapshot = build_vary_snapshot E response_hs request_hs
      in \<lparr>request_method = meth, vary_snapshot = snapshot, response_status = st,
          response_headers = response_hs, response_cache_control = cc,
          targeted_cc_in_effect = targeted, response_time = time, options = opts\<rparr>)"

definition same_variant_as :: "'h cache_policy \<Rightarrow> 'h cache_policy \<Rightarrow> bool" where
  "same_variant_as p q = (vary_snapshot p = vary_snapshot q)"

subsection \<open>The on-disk form\<close>

record 'h policy_repr =
  repr_request_method :: http_method
  repr_vary_snapshot :: "(string \<times> string option) list"
  repr_response_status :: status
  repr_response_headers :: 'h
  repr_response_time :: system_time
  repr_shared :: bool
  repr_cache_heuristic :: u32
  repr_immutable_min_time_to_live :: duration

definition policy_to_repr :: "'h cache_policy \<Rightarrow> 'h policy_repr" where
  "policy_to_repr p =
     \<lparr>repr_request_method = request_method p, repr_vary_snapshot = vary_snapshot p,
      repr_response_status = response_status p, repr_response_headers = response_headers p,
      repr_response_time = response_time p, repr_shared = shared (options p),
      repr_cache_heuristic = cache_heuristic (options p),
      repr_immutable_min_time_to_live = immutable_min_time_to_live (options p)\<rparr>"

definition policy_from_repr :: "'h ext \<Rightarrow> 'h policy_repr \<Rightarrow> 'h cache_policy" where
  "policy_from_repr E r =
     (let opts = \<lparr>shared = repr_shared r, cache_heuristic = repr_cache_heuristic r,
                  immutable_min_time_to_live = repr_immutable_min_time_to_live r\<rparr>;
          (cc, targeted) = derive_response_cache_control E (repr_response_headers r) opts
      in \<lparr>request_method = repr_request_method r, vary_snapshot = repr_vary_snapshot r,
          response_status = repr_response_status r,
          response_headers = repr_response_headers r, response_cache_control = cc,
          targeted_cc_in_effect = targeted, response_time = repr_response_time r,
          options = opts\<rparr>)"

subsection \<open>Well-formed policies\<close>

text \<open>The derived fields are what the headers and options determine.\<close>

definition policy_wf :: "'h ext \<Rightarrow> 'h cache_policy \<Rightarrow> bool" where
  "policy_wf E p \<longleftrightarrow>
     (response_cache_control p, targeted_cc_in_effect p)
       = derive_response_cache_control E (response_headers p) (options p)"

lemma policy_new_sel [simp]:
  "request_method (policy_new E m rq st rs t opts) = m"
  "vary_snapshot (policy_new E m rq st rs t opts) = build_vary_snapshot E rs rq"
  "response_status (policy_new E m rq st rs t opts) = st"
  "response_headers (policy_new E m rq st rs t opts) = rs"
  "response_cache_control (policy_new E m rq st rs t opts)
     = fst (derive_response_cache_control E rs opts)"
  "targeted_cc_in_effect (policy_new E m rq st rs t opts)
     = snd (derive_response_cache_control E rs opts)"
  "response_time (policy_new E m rq st rs t opts) = t"
  "options (policy_new E m rq st rs t opts) = opts"
  by (simp_all add: policy_new_def split: prod.splits)

lemma policy_new_wf [simp, intro]: "policy_wf E (policy_new E m rq st rs t opts)"
  by (simp add: policy_wf_def)

lemma policy_from_repr_wf [simp, intro]: "policy_wf E (policy_from_repr E r)"
  by (simp add: policy_wf_def policy_from_repr_def Let_def split: prod.splits)

lemma same_variant_as_refl [simp]: "same_variant_as p p"
  by (simp add: same_variant_as_def)

lemma same_variant_as_equiv:
  "same_variant_as p q \<Longrightarrow> same_variant_as q p"
  "same_variant_as p q \<Longrightarrow> same_variant_as q r \<Longrightarrow> same_variant_as p r"
  by (simp_all add: same_variant_as_def)

lemma effective_private:
  "\<not> shared opts \<Longrightarrow>
     effective_response_cache_control E hs opts = (headers_cache_control E hs, False)"
  by (simp add: effective_response_cache_control_def)

lemma derive_private:
  "\<not> shared opts \<Longrightarrow> snd (derive_response_cache_control E hs opts) = False"
  by (simp add: derive_response_cache_control_def effective_private split: prod.splits)

lemma effective_targeted_iff:
  "snd (effective_response_cache_control E hs opts) \<longleftrightarrow>
     shared opts \<and>
     (\<exists>raw cdn. headers_get_str E hs (Known CdnCacheControl) = Some raw \<and>
        looks_like_valid_sf_dictionary raw \<and>
        headers_cdn_cache_control E hs = Some cdn \<and> \<not> cc_is_empty cdn)"
  by (auto simp: effective_response_cache_control_def Let_def split: option.splits)

lemma effective_not_targeted:
  "\<not> snd (effective_response_cache_control E hs opts) \<Longrightarrow>
     fst (effective_response_cache_control E hs opts) = headers_cache_control E hs"
  by (auto simp: effective_response_cache_control_def Let_def split: option.splits if_splits)

lemma effective_targeted:
  "snd (effective_response_cache_control E hs opts) \<Longrightarrow>
     fst (effective_response_cache_control E hs opts) = headers_cdn_cache_control E hs
     \<and> headers_cdn_cache_control E hs \<noteq> None"
  by (auto simp: effective_response_cache_control_def Let_def split: option.splits if_splits)

subsection \<open>Several \<open>Vary\<close> lines are one comma-separated list\<close>

lemma split_on_append_sep:
  assumes "p c"
  shows "split_on p (a @ c # b) = split_on p a @ split_on p b"
proof (induction a)
  case Nil
  then show ?case using assms by simp
next
  case (Cons x a)
  then show ?case by (cases "split_on p a") simp_all
qed

lemma split_char_join:
  "lines \<noteq> [] \<Longrightarrow>
     split_char (CHR '','') (join '','' lines) = concat (map (split_char (CHR '','')) lines)"
  by (induction "'',''" lines rule: join.induct) (simp_all add: split_on_append_sep)

lemma map_filter_as_str_Utf8 [simp]: "List.map_filter as_str (map Utf8 lines) = lines"
  by (induction lines) (simp_all add: List.map_filter_simps)

lemma vary_names_join:
  "lines \<noteq> [] \<Longrightarrow> vary_names (map Utf8 lines) = vary_names [Utf8 (join '','' lines)]"
  by (simp add: vary_names_def split_char_join List.map_filter_simps)

lemma build_vary_snapshot_cong:
  assumes "headers_get_values E rs (Known Vary) = headers_get_values E rs' (Known Vary)"
    and "\<And>n. n \<in> fst ` set (build_vary_snapshot E rs rq) \<Longrightarrow>
           headers_get_str E rq (header_name_from E n) = headers_get_str E rq' (header_name_from E n)"
  shows "build_vary_snapshot E rs' rq' = build_vary_snapshot E rs rq"
proof (cases "headers_get_values E rs (Known Vary)")
  case None
  then show ?thesis using assms(1) by (simp add: build_vary_snapshot_def)
next
  case (Some vs)
  then have "to_ascii_lowercase n \<in> fst ` set (build_vary_snapshot E rs rq)"
    if "n \<in> set (vary_names vs)" for n
    using that by (simp add: build_vary_snapshot_def Let_def image_image)
  then have eq: "headers_get_str E rq' (header_name_from E (to_ascii_lowercase n))
      = headers_get_str E rq (header_name_from E (to_ascii_lowercase n))"
    if "n \<in> set (vary_names vs)" for n
    using that assms(2) [symmetric] by blast
  have "headers_get_values E rs' (Known Vary) = Some vs"
    using Some assms(1) by simp
  then show ?thesis
    by (simp add: build_vary_snapshot_def Let_def Some eq)
qed

lemma vary_snapshot_entry:
  assumes "(n, v) \<in> set (build_vary_snapshot E rs rq)"
  shows "v = headers_get_str E rq (header_name_from E n)"
  using assms by (auto simp: build_vary_snapshot_def Let_def split: option.splits)

subsection \<open>Properties\<close>

text \<open>A policy of a \<open>GET\<close> exchange with one \<open>Cache-Control\<close> header, for the witnesses.\<close>

definition ref_policy :: "string \<Rightarrow> system_time \<Rightarrow> hmap cache_policy" where
  "ref_policy cc t =
     policy_new ref_env Get [] 200 [(Known CacheControl, [Utf8 cc])] t cache_options_default"

text \<open>
  Every policy the cache builds survives its on-disk form: converting it to
  \<open>PolicyRepr\<close> and back gives the same policy, the recomputed \<open>response_cache_control\<close> and
  \<open>targeted_cc_in_effect\<close> included.
\<close>

theorem policy_repr_roundtrip:
  "policy_from_repr E (policy_to_repr (policy_new E m rq st rs t opts))
     = policy_new E m rq st rs t opts"
  by (cases opts)
     (simp add: policy_from_repr_def policy_to_repr_def policy_new_def Let_def split: prod.splits)

text \<open>
  Several \<open>Vary\<close> header lines are equivalent to one line with the comma-separated
  values (RFC 9110 section 5.3): both give the same snapshot of the request.
\<close>

theorem vary_lines_fold:
  assumes "headers_get_values E rs (Known Vary) = Some (map Utf8 lines)" and "lines \<noteq> []"
    and "headers_get_values E rs' (Known Vary) = Some [Utf8 (join '','' lines)]"
  shows "build_vary_snapshot E rs rq = build_vary_snapshot E rs' rq"
  using assms by (simp add: build_vary_snapshot_def vary_names_join)

theorem vary_lines_fold_witness:
  "build_vary_snapshot ref_env [(Known Vary, [Utf8 ''Accept'', Utf8 ''TE'']) ] [(Known Te, [Utf8 ''x''])]
     = build_vary_snapshot ref_env [(Known Vary, [Utf8 ''Accept,TE''])] [(Known Te, [Utf8 ''x''])]"
  using vary_lines_fold [of ref_env "[(Known Vary, [Utf8 ''Accept'', Utf8 ''TE''])]"
      "[''Accept'', ''TE'']" "[(Known Vary, [Utf8 ''Accept,TE''])]"]
  by (simp add: ref_env_def ref_get_values_def)

end
