(* ===== verification/Freshness.thy ===== *)
theory Freshness
  imports Policy
begin

section \<open>Freshness (\<open>src/freshness.rs\<close>)\<close>

text \<open>
  Age arithmetic, freshness lifetime and the windows for serving stale responses. The age
  of a response is the only quantity here whose computation can panic (the addition of two
  durations); everything that uses it has type \<open>'a option\<close>.
\<close>

definition parse_age_value :: "string \<Rightarrow> u64 option" where
  "parse_age_value raw =
     (case split_on (\<lambda>c. c = CHR '';'' \<or> c = CHR '','') raw of
        [] \<Rightarrow> None
      | first # _ \<Rightarrow> parse_u64 (trim first))"

definition age_header_value :: "'h ext \<Rightarrow> 'h cache_policy \<Rightarrow> duration" where
  "age_header_value E p =
     (let secs = unwrap_or (do {
            values \<leftarrow> headers_get_values E (response_headers p) (Known Age);
            value \<leftarrow> (case values of [] \<Rightarrow> None | v # _ \<Rightarrow> Some v);
            text \<leftarrow> as_str value;
            parse_age_value text }) 0
      in duration_from_secs secs)"

definition age :: "'h ext \<Rightarrow> 'h cache_policy \<Rightarrow> system_time \<Rightarrow> duration option" where
  "age E p now =
     (let a = age_header_value E p
      in case duration_since now (response_time p) of
           Some resident_time \<Rightarrow> duration_add a resident_time
         | None \<Rightarrow> Some a)"

definition raw_server_date :: "'h ext \<Rightarrow> 'h cache_policy \<Rightarrow> system_time" where
  "raw_server_date E p =
     unwrap_or (Option.bind (headers_get_str E (response_headers p) (Known Date))
                  (parse_http_date E))
       (response_time p)"

text \<open>The last part of \<open>max_age\<close>: heuristic freshness from \<open>Last-Modified\<close>.\<close>

definition heuristic_max_age ::
  "'h ext \<Rightarrow> 'h cache_policy \<Rightarrow> duration \<Rightarrow> system_time \<Rightarrow> duration" where
  "heuristic_max_age E p default_min_ttl server_date =
     (case do {
        lm_str \<leftarrow> headers_get_str E (response_headers p) (Known LastModified);
        last_modified \<leftarrow> parse_http_date E lm_str;
        duration_since server_date last_modified } of
      Some diff \<Rightarrow>
        max default_min_ttl
          (duration_from_secs (f64_scale_as_u64 (as_secs diff) (cache_heuristic (options p))))
    | None \<Rightarrow> default_min_ttl)"

definition max_age :: "'h ext \<Rightarrow> 'h cache_policy \<Rightarrow> duration" where
  "max_age E p =
     (let cc = response_cache_control p; hs = response_headers p; opts = options p
      in if is_some_and cc is_no_cache then 0
         else if shared opts \<and> headers_has_header E hs (Known SetCookie)
              \<and> \<not> is_some_and cc (\<lambda>cc. is_public cc \<or> is_immutable cc) then 0
         else if map_option trim (headers_get_str E hs (Known Vary)) = Some ''*'' then 0
         else if shared opts \<and> is_some_and cc is_proxy_revalidate then 0
         else case (if shared opts then Option.bind cc s_maxage else None) of
           Some s \<Rightarrow> s
         | None \<Rightarrow>
             (case Option.bind cc cc_max_age of
                Some m \<Rightarrow> m
              | None \<Rightarrow>
                  (let default_min_ttl =
                         (if is_some_and cc is_immutable then immutable_min_time_to_live opts else 0);
                       server_date = raw_server_date E p
                   in case (if targeted_cc_in_effect p then None
                            else headers_get_str E hs (Known Expires)) of
                        Some expires_str \<Rightarrow>
                          (case parse_http_date E expires_str of
                             None \<Rightarrow> 0
                           | Some expires \<Rightarrow>
                               max default_min_ttl (unwrap_or (duration_since expires server_date) 0))
                      | None \<Rightarrow> heuristic_max_age E p default_min_ttl server_date)))"

definition time_to_live :: "'h ext \<Rightarrow> 'h cache_policy \<Rightarrow> system_time \<Rightarrow> duration option" where
  "time_to_live E p now =
     do { a \<leftarrow> age E p now; Some (unwrap_or (duration_sub (max_age E p) a) 0) }"

definition is_stale :: "'h ext \<Rightarrow> 'h cache_policy \<Rightarrow> system_time \<Rightarrow> bool option" where
  "is_stale E p now = do { a \<leftarrow> age E p now; Some (max_age E p \<le> a) }"

definition stale_while_revalidate_window :: "'h cache_policy \<Rightarrow> duration" where
  "stale_while_revalidate_window p =
     unwrap_or (Option.bind (response_cache_control p) stale_while_revalidate) 0"

definition stale_if_error_window :: "'h cache_policy \<Rightarrow> duration" where
  "stale_if_error_window p =
     unwrap_or (Option.bind (response_cache_control p) stale_if_error) 0"

definition is_eligible_for_stale_serving ::
  "'h ext \<Rightarrow> 'h cache_policy \<Rightarrow> system_time \<Rightarrow> duration \<Rightarrow> bool option" where
  "is_eligible_for_stale_serving E p now window =
     do {
       stale \<leftarrow> is_stale E p now;
       if \<not> stale \<or> window = 0 then Some False
       else if is_some_and (response_cache_control p) must_revalidate then Some False
       else if shared (options p) \<and> is_some_and (response_cache_control p) is_proxy_revalidate
       then Some False
       else do {
         a \<leftarrow> age E p now;
         let staleness = saturating_sub a (max_age E p);
         Some (staleness < window) } }"

definition is_swr_eligible :: "'h ext \<Rightarrow> 'h cache_policy \<Rightarrow> system_time \<Rightarrow> bool option" where
  "is_swr_eligible E p now =
     is_eligible_for_stale_serving E p now (stale_while_revalidate_window p)"

definition is_sie_eligible :: "'h ext \<Rightarrow> 'h cache_policy \<Rightarrow> system_time \<Rightarrow> bool option" where
  "is_sie_eligible E p now =
     is_eligible_for_stale_serving E p now (stale_if_error_window p)"

text \<open>The resident time, zero when the clock is behind the response time.\<close>

definition resident_time :: "'h cache_policy \<Rightarrow> system_time \<Rightarrow> duration" where
  "resident_time p now = nat (now - response_time p)"

subsection \<open>Age\<close>

lemma age_header_value_le [simp]: "age_header_value E p \<le> duration_max"
  by (simp add: age_header_value_def Let_def)

lemma parse_age_value_decimal:
  assumes "\<forall>c \<in> set ws \<union> set ws'. is_whitespace c" and "rest = [] \<or> hd rest = CHR '';'' \<or> hd rest = CHR '',''"
  shows "parse_age_value (ws @ show_nat n @ ws' @ rest) = (if n < 2 ^ 64 then Some (of_nat n) else None)"
proof -
  let ?q = "\<lambda>c. c = CHR '';'' \<or> c = CHR '',''" and ?s = "ws @ show_nat n @ ws'"
  have digits: "\<forall>c \<in> set (show_nat n). \<not> is_whitespace c \<and> \<not> ?q c"
    using show_nat_digits is_ascii_digit_not_special by blast
  have "\<not> ?q c" if "is_whitespace c" for c using that by (auto simp: is_whitespace_def)
  with digits assms(1) have "\<forall>c \<in> set ?s. \<not> ?q c" by auto
  then have "hd (split_on ?q (?s @ rest)) = ?s"
    using assms(2) by (cases rest) (auto simp: split_on_takeWhile takeWhile_eq_all_conv takeWhile_append)
  moreover have "trim ?s = show_nat n"
    using assms(1) digits by (intro trim_padded) auto
  ultimately show ?thesis
    by (cases "split_on ?q (?s @ rest)") (simp_all add: parse_age_value_def parse_u64_show_nat)
qed

lemma parse_age_value_None:
  assumes "c \<in> set (takeWhile (\<lambda>c. c \<noteq> CHR '';'' \<and> c \<noteq> CHR '','') s)"
    and "\<not> is_ascii_digit c" and "\<not> is_whitespace c" and "c \<noteq> CHR ''+''"
  shows "parse_age_value s = None"
proof -
  let ?q = "\<lambda>c. c = CHR '';'' \<or> c = CHR '',''"
  have "c \<in> set (trim (hd (split_on ?q s)))"
    using assms by (intro trim_keeps) (simp_all add: split_on_takeWhile)
  with parse_u64_None [OF this assms(2,4)] show ?thesis
    by (cases "split_on ?q s") (simp_all add: parse_age_value_def)
qed

lemma age_eq:
  "age E p now =
     (if age_header_value E p + resident_time p now \<le> duration_max
      then Some (age_header_value E p + resident_time p now) else None)"
  by (simp add: age_def resident_time_def duration_since_def duration_add_def Let_def)

lemma age_Some_iff:
  "age E p now = Some a \<longleftrightarrow>
     a = age_header_value E p + resident_time p now \<and> a \<le> duration_max"
  by (auto simp: age_eq)

lemma age_None_iff:
  "age E p now = None \<longleftrightarrow> duration_max < age_header_value E p + resident_time p now"
  by (auto simp: age_eq)

lemma age_mono:
  "age E p now = Some a \<Longrightarrow> age E p later = Some b \<Longrightarrow> now \<le> later \<Longrightarrow> a \<le> b"
  by (auto simp: age_Some_iff resident_time_def)

lemma is_stale_Some_iff:
  "is_stale E p now = Some b \<longleftrightarrow> (\<exists>a. age E p now = Some a \<and> b = (max_age E p \<le> a))"
  by (auto simp: is_stale_def bind_Some_iff)

lemma time_to_live_Some_iff:
  "time_to_live E p now = Some d \<longleftrightarrow> (\<exists>a. age E p now = Some a \<and> d = max_age E p - a)"
  by (auto simp: time_to_live_def bind_Some_iff duration_sub_def)

lemma stale_serving_Some_iff:
  "is_eligible_for_stale_serving E p now window = Some True \<longleftrightarrow>
     (\<exists>a. age E p now = Some a \<and> max_age E p \<le> a \<and> a - max_age E p < window) \<and>
     \<not> is_some_and (response_cache_control p) must_revalidate \<and>
     \<not> (shared (options p) \<and> is_some_and (response_cache_control p) is_proxy_revalidate)"
  by (auto simp: is_eligible_for_stale_serving_def is_stale_def bind_Some_iff Let_def)

lemma stale_serving_total:
  "age E p now = Some a \<Longrightarrow> \<exists>b. is_eligible_for_stale_serving E p now window = Some b"
  by (auto simp: is_eligible_for_stale_serving_def is_stale_def Let_def)

lemma stale_serving_age_None: "age E p now = None \<Longrightarrow> is_eligible_for_stale_serving E p now w = None"
  by (simp add: is_eligible_for_stale_serving_def is_stale_def)

text \<open>The window a directive of the response opens, empty where serving stale is forbidden.\<close>

definition stale_window :: "'h cache_policy \<Rightarrow> (cache_control \<Rightarrow> duration option) \<Rightarrow> duration" where
  "stale_window p directive =
     (case response_cache_control p of
        None \<Rightarrow> 0
      | Some cc \<Rightarrow>
          if must_revalidate cc \<or> shared (options p) \<and> is_proxy_revalidate cc then 0
          else case directive cc of None \<Rightarrow> 0 | Some w \<Rightarrow> w)"

lemma stale_window_eligible:
  assumes "age E p now = Some a"
  shows "is_swr_eligible E p now
       = Some (max_age E p \<le> a \<and> a < max_age E p + stale_window p stale_while_revalidate)"
    and "is_sie_eligible E p now
       = Some (max_age E p \<le> a \<and> a < max_age E p + stale_window p stale_if_error)"
  using assms
  by (auto simp: is_swr_eligible_def is_sie_eligible_def is_eligible_for_stale_serving_def is_stale_def
      stale_while_revalidate_window_def stale_if_error_window_def stale_window_def Let_def
      split: option.splits)

subsection \<open>Freshness lifetime\<close>

text \<open>The conditions under which a response is stale at once.\<close>

definition forces_revalidation :: "'h ext \<Rightarrow> 'h cache_policy \<Rightarrow> bool" where
  "forces_revalidation E p \<longleftrightarrow>
     is_some_and (response_cache_control p) is_no_cache \<or>
     (shared (options p) \<and> headers_has_header E (response_headers p) (Known SetCookie)
       \<and> \<not> is_some_and (response_cache_control p) (\<lambda>cc. is_public cc \<or> is_immutable cc)) \<or>
     map_option trim (headers_get_str E (response_headers p) (Known Vary)) = Some ''*'' \<or>
     (shared (options p) \<and> is_some_and (response_cache_control p) is_proxy_revalidate)"

text \<open>The sources of a freshness lifetime in the order of RFC 9111 section 4.2.1.\<close>

definition default_min_ttl :: "'h cache_policy \<Rightarrow> duration" where
  "default_min_ttl p =
     (if is_some_and (response_cache_control p) is_immutable
      then immutable_min_time_to_live (options p) else 0)"

definition lifetime_sources :: "'h ext \<Rightarrow> 'h cache_policy \<Rightarrow> duration option list" where
  "lifetime_sources E p =
     [if shared (options p) then Option.bind (response_cache_control p) s_maxage else None,
      Option.bind (response_cache_control p) cc_max_age,
      if targeted_cc_in_effect p then None
      else map_option (\<lambda>s. case parse_http_date E s of
                None \<Rightarrow> 0
              | Some t \<Rightarrow> max (default_min_ttl p)
                           (unwrap_or (duration_since t (raw_server_date E p)) 0))
             (headers_get_str E (response_headers p) (Known Expires)),
      Some (heuristic_max_age E p (default_min_ttl p) (raw_server_date E p))]"

fun first_some :: "'a option list \<Rightarrow> 'a option" where
  "first_some [] = None"
| "first_some (x # xs) = (case x of None \<Rightarrow> first_some xs | Some y \<Rightarrow> Some y)"

lemma max_age_cong:
  assumes "response_cache_control p = response_cache_control q" and "options p = options q"
    and "targeted_cc_in_effect p = targeted_cc_in_effect q"
    and "response_time p = response_time q"
    and "\<And>n. n \<in> {SetCookie, Vary, Date, LastModified} \<Longrightarrow>
           headers_get_str E (response_headers p) (Known n) = headers_get_str E (response_headers q) (Known n)"
    and "headers_has_header E (response_headers p) (Known SetCookie)
           = headers_has_header E (response_headers q) (Known SetCookie)"
    and "\<not> targeted_cc_in_effect p \<Longrightarrow>
           headers_get_str E (response_headers p) (Known Expires) = headers_get_str E (response_headers q) (Known Expires)"
  shows "max_age E p = max_age E q"
proof -
  have hdr: "headers_get_str E (response_headers p) (Known Vary) = headers_get_str E (response_headers q) (Known Vary)"
    "headers_get_str E (response_headers p) (Known Date) = headers_get_str E (response_headers q) (Known Date)"
    "headers_get_str E (response_headers p) (Known LastModified)
       = headers_get_str E (response_headers q) (Known LastModified)"
    using assms(5) by simp_all
  have date: "raw_server_date E p = raw_server_date E q"
    by (simp add: raw_server_date_def hdr assms(4))
  have heur: "heuristic_max_age E p d t = heuristic_max_age E q d t" for d t
    unfolding heuristic_max_age_def hdr assms(2) by (rule refl)
  have expires: "(if targeted_cc_in_effect p then None
        else headers_get_str E (response_headers p) (Known Expires)) =
      (if targeted_cc_in_effect q then None
        else headers_get_str E (response_headers q) (Known Expires))"
    using assms(3,7) by simp
  show ?thesis
    unfolding max_age_def Let_def expires heur date hdr assms(1,2,6) by (rule refl)
qed

subsection \<open>Properties\<close>

text \<open>
  What the \<open>Age\<close> field of a response says: the decimal number before a semicolon or comma of
  its first line, padded with any whitespace.
\<close>

definition age_field_says :: "'h ext \<Rightarrow> 'h \<Rightarrow> nat \<Rightarrow> bool" where
  "age_field_says E hs n \<longleftrightarrow> (\<exists>ws ws' rest ls.
     headers_get_values E hs (Known Age) = Some (Utf8 (ws @ show_nat n @ ws' @ rest) # ls) \<and>
     list_all is_whitespace (ws @ ws') \<and> (rest = [] \<or> hd rest = CHR '';'' \<or> hd rest = CHR '',''))"

text \<open>
  No field, or a first line whose number has a character that no number has, such as a sign
  or a decimal point.
\<close>

definition age_field_ignored :: "'h ext \<Rightarrow> 'h \<Rightarrow> bool" where
  "age_field_ignored E hs \<longleftrightarrow> headers_get_values E hs (Known Age) = None \<or>
     (\<exists>s ls. headers_get_values E hs (Known Age) = Some (Utf8 s # ls) \<and>
        list_ex (\<lambda>c. \<not> is_ascii_digit c \<and> \<not> is_whitespace c \<and> c \<noteq> CHR ''+'')
          (takeWhile (\<lambda>c. c \<noteq> CHR '';'' \<and> c \<noteq> CHR '','') s))"

text \<open>
  C22: the age of a stored response is the number of seconds its \<open>Age\<close> field says plus the time
  since it was received, zero when the clock went backwards. The field says the decimal number
  at the start of its first line, before any semicolon or comma; no field, a sign or any other
  character that is not a digit makes it zero, and so does a number beyond 64 bits. The
  computation panics exactly when the sum exceeds the largest \<open>Duration\<close>.
\<close>

theorem age_exact:
  assumes "age_field_says E (response_headers p) n \<or> age_field_ignored E (response_headers p) \<and> n = 0"
    and A: "A = (if n < 2 ^ 64 then n * 10 ^ 9 else 0) + nat (now - response_time p)"
  shows "age E p now = (if A < 2 ^ 64 * 10 ^ 9 then Some A else None)"
proof -
  have "age_header_value E p = (if n < 2 ^ 64 then n * 10 ^ 9 else 0)"
    using assms(1)
  proof
    assume "age_field_says E (response_headers p) n"
    then obtain ws ws' rest ls where "headers_get_values E (response_headers p) (Known Age) = Some (Utf8 (ws @ show_nat n @ ws' @ rest) # ls)"
      and "\<forall>c \<in> set ws \<union> set ws'. is_whitespace c" "rest = [] \<or> hd rest = CHR '';'' \<or> hd rest = CHR '',''"
      unfolding age_field_says_def by (auto simp: list_all_iff)
    then show ?thesis
      by (simp add: age_header_value_def parse_age_value_decimal duration_from_secs_def unat_of_nat
          take_bit_nat_eq_self)
  next
    assume "age_field_ignored E (response_headers p) \<and> n = 0"
    then show ?thesis
      by (auto simp: age_header_value_def age_field_ignored_def list_ex_iff duration_from_secs_def
          dest: parse_age_value_None)
  qed
  then show ?thesis by (auto simp: age_eq A resident_time_def duration_max_def)
qed

theorem age_exact_witness:
  "age ref_env (policy_new ref_env Get [] 200 [(Known Age, [Utf8 '' 7200; x'', Utf8 ''1''])] 5 cache_options_default) 15
     = Some 7200000000010"
proof -
  let ?p = "policy_new ref_env Get [] 200 [(Known Age, [Utf8 '' 7200; x'', Utf8 ''1''])] 5 cache_options_default"
  have "show_nat 7200 = ''7200''" by code_simp
  then have "headers_get_values ref_env (response_headers ?p) (Known Age)
      = Some (Utf8 ('' '' @ show_nat 7200 @ [] @ ''; x'') # [Utf8 ''1''])"
    by (simp add: ref_env_def ref_get_values_def)
  moreover have "list_all is_whitespace ('' '' @ [])" by (simp add: is_whitespace_def)
  moreover have "hd ''; x'' = CHR '';''" by simp
  ultimately have "age_field_says ref_env (response_headers ?p) 7200"
    unfolding age_field_says_def by blast
  from age_exact [OF disjI1 [OF this] refl, of 15] show ?thesis by simp
qed

text \<open>
  With an \<open>Age\<close> header of less than \<open>2 ^ 63\<close> seconds and clock readings within
  \<open>2 ^ 63\<close> seconds of each other the age is computed without panic.
\<close>

theorem age_no_panic:
  assumes "age_header_value E p < 2 ^ 63 * nanos_per_sec"
    and "now - response_time p < 2 ^ 63 * int nanos_per_sec"
  shows "\<exists>a. age E p now = Some a"
  using assms by (simp add: age_eq resident_time_def duration_max_def)

theorem age_no_panic_witness:
  "\<exists>a. age ref_env (ref_policy ''max-age=600'' 5) 100000000005 = Some a"
proof -
  have "age_header_value ref_env (ref_policy ''max-age=600'' 5) < 2 ^ 63 * nanos_per_sec"
    by code_simp
  moreover have "100000000005 - response_time (ref_policy ''max-age=600'' 5) < 2 ^ 63 * int nanos_per_sec"
    by (simp add: ref_policy_def)
  ultimately show ?thesis by (rule age_no_panic)
qed

text \<open>
  An origin can make the age computation panic: one second after a response with
  \<open>Age: 18446744073709551615\<close> was received, adding the resident time overflows \<open>Duration\<close>.
\<close>

theorem age_overflow_panics:
  "age ref_env (policy_new ref_env Get [] 200
       [(Known Age, [Utf8 ''18446744073709551615''])] 0 cache_options_default) 1000000000 = None"
  by code_simp

text \<open>
  \<open>time_to_live\<close> is exact: a response with \<open>d\<close> left at \<open>now\<close> is stale at a later
  time if and only if at least \<open>d\<close> has passed by then.
\<close>

theorem time_to_live_exact:
  assumes "time_to_live E p now = Some d" and "response_time p \<le> now" and "now \<le> later"
    and "age E p later = Some a"
  shows "is_stale E p later = Some (int d \<le> later - now)"
proof -
  have "max_age E p \<le> a \<longleftrightarrow> int d \<le> later - now"
    using assms by (auto simp: time_to_live_Some_iff age_Some_iff resident_time_def)
  then show ?thesis using assms(4) by (simp add: is_stale_Some_iff)
qed

theorem time_to_live_exact_witness:
  "is_stale ref_env (ref_policy ''max-age=600'' 0) 599000000000
     = Some (int 500000000000 \<le> 599000000000 - 100000000000)"
proof (rule time_to_live_exact)
  show "time_to_live ref_env (ref_policy ''max-age=600'' 0) 100000000000 = Some 500000000000"
    by code_simp
  show "response_time (ref_policy ''max-age=600'' 0) \<le> 100000000000"
    by (simp add: ref_policy_def)
  show "age ref_env (ref_policy ''max-age=600'' 0) 599000000000 = Some 599000000000"
    by code_simp
qed simp

text \<open>
  Staleness is permanent: once a response is stale it is stale at every later time.
\<close>

theorem stale_forever:
  assumes "is_stale E p now = Some True" and "now \<le> later" and "age E p later = Some a"
  shows "is_stale E p later = Some True"
  using assms age_mono [of E p now _ later a] by (force simp: is_stale_Some_iff)

theorem stale_forever_witness:
  "is_stale ref_env (ref_policy ''max-age=1'' 0) 3000000000 = Some True"
proof (rule stale_forever)
  show "is_stale ref_env (ref_policy ''max-age=1'' 0) 2000000000 = Some True" by code_simp
  show "age ref_env (ref_policy ''max-age=1'' 0) 3000000000 = Some 3000000000" by code_simp
qed simp

text \<open>
  The freshness lifetime is zero when the response forces revalidation, and otherwise
  the first of \<open>s-maxage\<close> (shared caches), \<open>max-age\<close>, \<open>Expires\<close> (unless a targeted field is
  in effect) and the heuristic lifetime that is present.
\<close>

theorem max_age_precedence:
  "max_age E p =
     (if forces_revalidation E p then 0 else the (first_some (lifetime_sources E p)))"
  by (auto simp: max_age_def forces_revalidation_def lifetime_sources_def default_min_ttl_def
      Let_def split: option.splits)

text \<open>
  With the default ratio of 0.1 the heuristic lifetime of a response that was
  \<open>diff\<close> old (less than \<open>2 ^ 29\<close> seconds) when it was sent is a tenth of that age in
  seconds, rounded down or one more.
\<close>

theorem heuristic_is_one_tenth:
  assumes "cache_heuristic (options p) = f32_one_tenth"
    and "headers_get_str E (response_headers p) (Known LastModified) = Some s"
    and "parse_http_date E s = Some lm" and "duration_since date lm = Some diff"
    and "diff < 2 ^ 29 * nanos_per_sec"
  shows "\<exists>k. heuristic_max_age E p 0 date = k * nanos_per_sec
           \<and> diff div nanos_per_sec div 10 \<le> k \<and> k \<le> diff div nanos_per_sec div 10 + 1"
proof -
  have secs: "diff div nanos_per_sec < 2 ^ 29"
    using assms(5) by (simp add: div_less_iff_less_mult)
  have "unat (as_secs diff) = diff div nanos_per_sec"
    using assms(5) by (intro unat_as_secs) (simp add: duration_max_def)
  then have "unat (f64_scale_as_u64 (as_secs diff) f32_one_tenth)
      = diff div nanos_per_sec * 13421773 div 134217728"
    using secs f64_scale_one_tenth [of "as_secs diff"] by simp
  then have "heuristic_max_age E p 0 date
      = (diff div nanos_per_sec * 13421773 div 134217728) * nanos_per_sec"
    using assms by (simp add: heuristic_max_age_def duration_from_secs_def)
  then show ?thesis
    using one_tenth_div [OF secs] by blast
qed

theorem heuristic_is_one_tenth_witness:
  "\<exists>k. heuristic_max_age ref_env (policy_new ref_env Get [] 200
           [(Known LastModified, [Utf8 ''1000''])] 0 cache_options_default) 0 8641000000000000
         = k * nanos_per_sec
       \<and> 8640000000000000 div nanos_per_sec div 10 \<le> k
       \<and> k \<le> 8640000000000000 div nanos_per_sec div 10 + 1"
proof (rule heuristic_is_one_tenth)
  show "parse_http_date ref_env ''1000'' = Some 1000000000000" by code_simp
  show "headers_get_str ref_env (response_headers (policy_new ref_env Get [] 200
      [(Known LastModified, [Utf8 ''1000''])] 0 cache_options_default)) (Known LastModified) = Some ''1000''"
    by (simp add: ref_env_def ref_get_str_def)
  show "duration_since 8641000000000000 1000000000000 = Some 8640000000000000"
    by (simp add: duration_since_def)
qed (simp_all add: cache_options_default_def)

end
