(* ===== verification/Validation.thy ===== *)
theory Validation
  imports Freshness
begin

section \<open>Validation (\<open>src/validation.rs\<close>)\<close>

text \<open>
  What to do with a request given a stored response (\<open>before_request\<close>), and how to
  integrate the origin's answer to a revalidation request (\<open>after_response\<close>).
\<close>

record 'h cached_head =
  cr_status :: status
  cr_headers :: 'h

datatype 'h BeforeRequest =
    Fresh "'h cached_head"
  | ServeNotModified "'h cached_head"
  | Stale 'h bool

datatype 'h AfterResponse =
    Refreshed "'h cache_policy" "'h cached_head"
  | Modified

subsection \<open>Entity tags\<close>

abbreviation dquote :: char where
  "dquote \<equiv> CHR 0x22"

definition etag_opaque :: "string \<Rightarrow> string option" where
  "etag_opaque etag =
     (let etag = trim etag;
          etag = unwrap_or (strip_prefix ''W/'' etag) etag
      in Option.bind (strip_prefix [dquote] etag) (strip_suffix [dquote]))"

function skip_etag_separators :: "string \<Rightarrow> string" where
  "skip_etag_separators s =
     (let remaining = trim_start s
      in case strip_prefix '','' remaining of
           Some rest \<Rightarrow> skip_etag_separators rest
         | None \<Rightarrow>
             (case strip_prefix ''W/'' remaining of
                Some rest \<Rightarrow> skip_etag_separators rest
              | None \<Rightarrow> remaining))"
  by pat_completeness auto
termination
proof (relation "measure length", goal_cases)
  case 1
  show ?case by simp
next
  case (2 s x rest)
  then show ?case
    using length_trim_start [of s] by (auto dest: strip_prefix_length)
next
  case (3 s x rest)
  then show ?case
    using length_trim_start [of s] by (auto dest: strip_prefix_length)
qed

declare skip_etag_separators.simps [simp del]

lemma skip_etag_separators_length: "length (skip_etag_separators s) \<le> length s"
proof (induction s rule: skip_etag_separators.induct)
  case (1 s)
  show ?case
  proof (cases "strip_prefix '','' (trim_start s)")
    case None
    show ?thesis
    proof (cases "strip_prefix ''W/'' (trim_start s)")
      case None
      then show ?thesis
        using \<open>strip_prefix '','' (trim_start s) = None\<close> length_trim_start [of s]
        by (simp add: skip_etag_separators.simps [of s] Let_def)
    next
      case (Some rest)
      then have "length (skip_etag_separators rest) \<le> length rest"
        using "1.IH"(1) [OF refl None Some] by simp
      then show ?thesis
        using None Some length_trim_start [of s] strip_prefix_length [OF Some]
        by (simp add: skip_etag_separators.simps [of s] Let_def)
    qed
  next
    case (Some rest)
    then have "length (skip_etag_separators rest) \<le> length rest"
      using "1.IH"(2) [OF refl Some] by simp
    then show ?thesis
      using Some length_trim_start [of s] strip_prefix_length [OF Some]
      by (simp add: skip_etag_separators.simps [of s] Let_def)
  qed
qed

function iter_etag_opaques :: "string \<Rightarrow> string list" where
  "iter_etag_opaques s =
     (case strip_prefix [dquote] (skip_etag_separators s) of
        None \<Rightarrow> []
      | Some inner \<Rightarrow>
          (case str_find dquote inner of
             None \<Rightarrow> []
           | Some close \<Rightarrow> take close inner # iter_etag_opaques (drop (close + 1) inner)))"
  by pat_completeness auto
termination
proof (relation "measure length", goal_cases)
  case 1
  show ?case by simp
next
  case (2 s inner close)
  then show ?case
    using skip_etag_separators_length [of s] by (auto dest!: strip_prefix_length)
qed

declare iter_etag_opaques.simps [simp del]

definition inm_matches :: "string \<Rightarrow> string option \<Rightarrow> bool" where
  "inm_matches if_none_match cached_etag =
     (let inm = trim if_none_match
      in if inm = ''*'' then True
         else case Option.bind cached_etag etag_opaque of
                None \<Rightarrow> False
              | Some cached_opaque \<Rightarrow> list_ex (\<lambda>tag. tag = cached_opaque) (iter_etag_opaques inm))"

definition ims_matches :: "'h ext \<Rightarrow> string \<Rightarrow> string option \<Rightarrow> bool" where
  "ims_matches E if_modified_since cached_last_modified =
     (case parse_http_date E if_modified_since of
        None \<Rightarrow> False
      | Some ims \<Rightarrow>
          (case cached_last_modified of
             None \<Rightarrow> False
           | Some lm_str \<Rightarrow>
               (case parse_http_date E lm_str of
                  None \<Rightarrow> False
                | Some lm \<Rightarrow> lm \<le> ims)))"

definition inbound_conditional_matches :: "'h ext \<Rightarrow> 'h cache_policy \<Rightarrow> 'h \<Rightarrow> bool" where
  "inbound_conditional_matches E p request_hs =
     (case headers_get_str E request_hs (Known IfNoneMatch) of
        Some inm \<Rightarrow> inm_matches inm (headers_get_str E (response_headers p) (Known Etag))
      | None \<Rightarrow>
          (case headers_get_str E request_hs (Known IfModifiedSince) of
             Some ims \<Rightarrow>
               ims_matches E ims (headers_get_str E (response_headers p) (Known LastModified))
           | None \<Rightarrow> False))"

subsection \<open>Response heads\<close>

definition hop_by_hop_headers :: "header_name list" where
  "hop_by_hop_headers =
     [Known Connection, Known KeepAlive, Known ProxyAuthenticate, Known ProxyAuthorization,
      Known Te, Known Trailer, Known TransferEncoding, Known Upgrade]"

definition connection_names :: "'h ext \<Rightarrow> 'h \<Rightarrow> header_name list" where
  "connection_names E headers =
     (case headers_get_str E headers (Known Connection) of
        None \<Rightarrow> []
      | Some connection \<Rightarrow>
          map (header_name_from E)
            (filter (\<lambda>s. s \<noteq> []) (map trim (split_char (CHR '','') connection))))"

definition copy_without_hop_by_hop_headers :: "'h ext \<Rightarrow> 'h \<Rightarrow> 'h" where
  "copy_without_hop_by_hop_headers E headers =
     (let out = headers_remove_all E headers hop_by_hop_headers
      in foldl (headers_remove E) out (connection_names E headers))"

definition insert_age :: "'h ext \<Rightarrow> 'h \<Rightarrow> duration \<Rightarrow> 'h" where
  "insert_age E headers a =
     headers_insert E headers (Known Age) [Utf8 (u64_to_string (as_secs a))]"

definition cached_response ::
  "'h ext \<Rightarrow> 'h cache_policy \<Rightarrow> system_time \<Rightarrow> 'h cached_head option" where
  "cached_response E p now =
     do {
       let headers = copy_without_hop_by_hop_headers E (response_headers p);
       a \<leftarrow> age E p now;
       Some \<lparr>cr_status = response_status p, cr_headers = insert_age E headers a\<rparr> }"

definition HEADERS_TO_KEEP :: "header_name list" where
  "HEADERS_TO_KEEP =
     [Known Date, Known Etag, Known LastModified, Known Vary, Known CacheControl,
      Known ContentLocation, Known Expires]"

definition cached_response_304 ::
  "'h ext \<Rightarrow> 'h cache_policy \<Rightarrow> system_time \<Rightarrow> 'h cached_head option" where
  "cached_response_304 E p now =
     do {
       let headers = foldl (\<lambda>hs name.
             case headers_get_values E (response_headers p) name of
               Some value \<Rightarrow> headers_insert E hs name value
             | None \<Rightarrow> hs) (headers_new E) HEADERS_TO_KEEP;
       a \<leftarrow> age E p now;
       Some \<lparr>cr_status = NotModified_status, cr_headers = insert_age E headers a\<rparr> }"

subsection \<open>Before the request\<close>

fun vary_snapshot_matches ::
  "'h ext \<Rightarrow> (string \<times> string option) list \<Rightarrow> 'h \<Rightarrow> bool" where
  "vary_snapshot_matches E [] request_hs = True"
| "vary_snapshot_matches E ((name, stored_value) # rest) request_hs =
     (if name = ''*'' then False
      else if headers_get_str E request_hs (header_name_from E name) \<noteq> stored_value then False
      else vary_snapshot_matches E rest request_hs)"

definition vary_matches :: "'h ext \<Rightarrow> 'h cache_policy \<Rightarrow> 'h \<Rightarrow> bool" where
  "vary_matches E p request_hs = vary_snapshot_matches E (vary_snapshot p) request_hs"

definition allows_stale ::
  "'h ext \<Rightarrow> 'h cache_policy \<Rightarrow> cache_control option \<Rightarrow> system_time \<Rightarrow> bool option" where
  "allows_stale E p req_cc now =
     (if is_some_and (response_cache_control p) must_revalidate then Some False
      else case Option.bind req_cc max_stale of
             None \<Rightarrow> Some False
           | Some None \<Rightarrow> Some True
           | Some (Some allowed) \<Rightarrow>
               do {
                 a \<leftarrow> age E p now;
                 d \<leftarrow> duration_sub a (max_age E p);
                 Some (d < allowed) })"

definition satisfies_without_revalidation ::
  "'h ext \<Rightarrow> 'h cache_policy \<Rightarrow> 'h \<Rightarrow> system_time \<Rightarrow> bool option" where
  "satisfies_without_revalidation E p request_hs now =
     (let req_cc = headers_cache_control E request_hs
      in if is_some_and req_cc is_no_cache
            \<or> is_some_and (headers_get_str E request_hs (Known Pragma)) (str_contains ''no-cache'')
         then Some False
         else do {
           too_old \<leftarrow> (case Option.bind req_cc cc_max_age of
                         None \<Rightarrow> Some False
                       | Some req_max_age \<Rightarrow>
                           do { a \<leftarrow> age E p now; Some (req_max_age < a) });
           if too_old then Some False
           else do {
             not_fresh_enough \<leftarrow> (case Option.bind req_cc min_fresh of
                         None \<Rightarrow> Some False
                       | Some minf \<Rightarrow>
                           do { ttl \<leftarrow> time_to_live E p now; Some (ttl < minf) });
             if not_fresh_enough then Some False
             else do {
               stale \<leftarrow> is_stale E p now;
               if stale then allows_stale E p req_cc now else Some True } } })"

text \<open>The three stages of \<open>revalidation_request_headers\<close>.\<close>

definition add_etag_validator :: "'h ext \<Rightarrow> 'h cache_policy \<Rightarrow> 'h \<Rightarrow> 'h" where
  "add_etag_validator E p headers =
     (case headers_get_str E (response_headers p) (Known Etag) of
        None \<Rightarrow> headers
      | Some etag \<Rightarrow>
          (let combined = (case headers_get_str E headers (Known IfNoneMatch) of
                             Some existing \<Rightarrow> existing @ '', '' @ etag
                           | None \<Rightarrow> etag)
           in headers_insert E headers (Known IfNoneMatch) [Utf8 combined]))"

definition drop_weak_validators :: "'h ext \<Rightarrow> 'h \<Rightarrow> 'h" where
  "drop_weak_validators E headers =
     (let headers = headers_remove E headers (Known IfModifiedSince)
      in case headers_get_str E headers (Known IfNoneMatch) of
           None \<Rightarrow> headers
         | Some inm \<Rightarrow>
             (let strong = join '', '' (filter (\<lambda>t. \<not> starts_with ''W/'' t)
                             (map trim (split_char (CHR '','') inm)))
              in if strong = [] then headers_remove E headers (Known IfNoneMatch)
                 else headers_insert E headers (Known IfNoneMatch) [Utf8 strong]))"

definition add_last_modified_validator :: "'h ext \<Rightarrow> 'h cache_policy \<Rightarrow> 'h \<Rightarrow> 'h" where
  "add_last_modified_validator E p headers =
     (case headers_get_str E (response_headers p) (Known LastModified) of
        None \<Rightarrow> headers
      | Some lm \<Rightarrow> headers_insert E headers (Known IfModifiedSince) [Utf8 lm])"

definition revalidation_request_headers :: "'h ext \<Rightarrow> 'h cache_policy \<Rightarrow> 'h \<Rightarrow> 'h" where
  "revalidation_request_headers E p request_hs =
     (let headers = copy_without_hop_by_hop_headers E request_hs;
          headers = headers_remove E headers (Known IfRange);
          headers = add_etag_validator E p headers;
          forbids_weak =
            (request_method p \<noteq> Get
             \<or> headers_has_header E headers (Known AcceptRanges)
             \<or> headers_has_header E headers (Known IfMatch)
             \<or> headers_has_header E headers (Known IfUnmodifiedSince))
      in if forbids_weak then drop_weak_validators E headers
         else if \<not> headers_has_header E headers (Known IfModifiedSince)
         then add_last_modified_validator E p headers
         else headers)"

definition before_request ::
  "'h ext \<Rightarrow> 'h cache_policy \<Rightarrow> 'h \<Rightarrow> system_time \<Rightarrow> 'h BeforeRequest option" where
  "before_request E p request_hs now =
     do {
       let matches = vary_matches E p request_hs;
       satisfied \<leftarrow> (if matches then satisfies_without_revalidation E p request_hs now
                     else Some False);
       if satisfied then
         (if inbound_conditional_matches E p request_hs
          then map_option ServeNotModified (cached_response_304 E p now)
          else map_option Fresh (cached_response E p now))
       else Some (Stale (revalidation_request_headers E p request_hs) matches) }"

subsection \<open>After the response\<close>

definition is_excluded_from_revalidation_update :: "header_name \<Rightarrow> bool" where
  "is_excluded_from_revalidation_update name =
     (name = Known ContentLength \<or> name = Known ContentEncoding
      \<or> name = Known TransferEncoding \<or> name = Known ContentRange)"

definition merge_revalidation_headers :: "'h ext \<Rightarrow> 'h \<Rightarrow> 'h \<Rightarrow> 'h" where
  "merge_revalidation_headers E stored new =
     foldl (\<lambda>out (name, vals).
              if is_excluded_from_revalidation_update name then out
              else headers_insert E out name vals)
       stored (headers_iter E new)"

definition after_response ::
  "'h ext \<Rightarrow> 'h cache_policy \<Rightarrow> 'h \<Rightarrow> status \<Rightarrow> 'h \<Rightarrow> system_time \<Rightarrow> 'h AfterResponse option" where
  "after_response E p request_hs new_status new_response_hs time =
     (let entity_matches = (new_status = NotModified_status);
          (final_status, final_response_hs) =
            (if entity_matches
             then (response_status p, merge_revalidation_headers E (response_headers p) new_response_hs)
             else (new_status, new_response_hs))
      in if entity_matches then
           (let new_policy = policy_new E (request_method p) request_hs final_status
                               final_response_hs time (options p)
            in map_option (Refreshed new_policy) (cached_response E new_policy time))
         else Some Modified)"

subsection \<open>Lemmas: reuse without revalidation\<close>

text \<open>A request directive (or the legacy \<open>Pragma\<close>) that forces revalidation.\<close>

definition request_no_cache :: "'h ext \<Rightarrow> 'h \<Rightarrow> bool" where
  "request_no_cache E request_hs \<longleftrightarrow>
     is_some_and (headers_cache_control E request_hs) is_no_cache
     \<or> is_some_and (headers_get_str E request_hs (Known Pragma)) (str_contains ''no-cache'')"

text \<open>The request asks for staleness the stored response permits.\<close>

definition stale_permitted :: "'h ext \<Rightarrow> 'h cache_policy \<Rightarrow> 'h \<Rightarrow> duration \<Rightarrow> bool" where
  "stale_permitted E p request_hs staleness \<longleftrightarrow>
     \<not> is_some_and (response_cache_control p) must_revalidate \<and>
     (case Option.bind (headers_cache_control E request_hs) max_stale of
        None \<Rightarrow> False
      | Some None \<Rightarrow> True
      | Some (Some allowed) \<Rightarrow> staleness < allowed)"

lemma vary_snapshot_matches_iff:
  "vary_snapshot_matches E snap rq \<longleftrightarrow>
     (\<forall>(n, v) \<in> set snap. n \<noteq> ''*'' \<and> headers_get_str E rq (header_name_from E n) = v)"
  by (induction E snap rq rule: vary_snapshot_matches.induct) auto

lemma vary_matches_iff:
  "vary_matches E p rq \<longleftrightarrow>
     (\<forall>(n, v) \<in> set (vary_snapshot p). n \<noteq> ''*'' \<and> headers_get_str E rq (header_name_from E n) = v)"
  by (simp add: vary_matches_def vary_snapshot_matches_iff)

lemma allows_stale_eq:
  assumes "age E p now = Some a" and "max_age E p \<le> a"
  shows "allows_stale E p (headers_cache_control E rq) now
           = Some (stale_permitted E p rq (a - max_age E p))"
  using assms
  by (auto simp: allows_stale_def stale_permitted_def duration_sub_def split: option.splits)

lemma satisfies_eq:
  assumes "age E p now = Some a"
  shows "satisfies_without_revalidation E p rq now =
     Some (\<not> request_no_cache E rq
       \<and> (case Option.bind (headers_cache_control E rq) cc_max_age of
            None \<Rightarrow> True | Some m \<Rightarrow> a \<le> m)
       \<and> (case Option.bind (headers_cache_control E rq) min_fresh of
            None \<Rightarrow> True | Some m \<Rightarrow> m \<le> max_age E p - a)
       \<and> (a < max_age E p \<or> stale_permitted E p rq (a - max_age E p)))"
proof -
  have ttl: "time_to_live E p now = Some (max_age E p - a)"
    using assms by (simp add: time_to_live_Some_iff)
  have st: "is_stale E p now = Some (max_age E p \<le> a)"
    using assms by (simp add: is_stale_Some_iff)
  show ?thesis
    using allows_stale_eq [OF assms]
    by (auto simp: satisfies_without_revalidation_def request_no_cache_def Let_def ttl st assms
        split: option.splits)
qed

lemma cached_response_Some_iff:
  "cached_response E p now = Some r \<longleftrightarrow>
     (\<exists>a. age E p now = Some a \<and>
        r = \<lparr>cr_status = response_status p,
             cr_headers = insert_age E (copy_without_hop_by_hop_headers E (response_headers p)) a\<rparr>)"
  by (auto simp: cached_response_def bind_Some_iff Let_def)

lemma cached_response_total: "age E p now = Some a \<Longrightarrow> \<exists>r. cached_response E p now = Some r"
  by (simp add: cached_response_Some_iff)

lemma cached_response_304_total:
  "age E p now = Some a \<Longrightarrow> \<exists>r. cached_response_304 E p now = Some r"
  by (auto simp: cached_response_304_def Let_def)

lemma age_at_response_time: "age E (policy_new E m rq st hs t opts) t \<noteq> None"
  by (simp add: age_eq resident_time_def)

lemma after_response_304:
  "\<exists>c. after_response E p rq 304 hs t = Some (Refreshed (policy_new E (request_method p) rq
      (response_status p) (merge_revalidation_headers E (response_headers p) hs) t (options p)) c)"
  using age_at_response_time [of E] cached_response_total [of E]
  by (fastforce simp: after_response_def Let_def)

lemma after_response_other: "st \<noteq> 304 \<Longrightarrow> after_response E p rq st hs t = Some Modified"
  by (simp add: after_response_def)

lemma after_response_total: "after_response E p rq st hs t \<noteq> None"
  using after_response_304 [of E p rq hs t] after_response_other [of st E p rq hs t]
  by (cases "st = 304") auto

lemma satisfies_age_None:
  "age E p now = None \<Longrightarrow> satisfies_without_revalidation E p rq now \<noteq> Some True"
  by (auto simp: satisfies_without_revalidation_def is_stale_def time_to_live_def Let_def
      bind_Some_iff split: option.splits if_splits)

lemma before_request_age_None:
  assumes "age E p now = None"
  shows "before_request E p rq now \<in> {None, Some (Stale (revalidation_request_headers E p rq) (vary_matches E p rq))}"
  using satisfies_age_None [OF assms, of rq]
  by (cases "satisfies_without_revalidation E p rq now") (auto simp: before_request_def Let_def)

lemma before_request_unmatched:
  "\<not> vary_matches E p rq \<Longrightarrow> before_request E p rq now = Some (Stale (revalidation_request_headers E p rq) False)"
  by (simp add: before_request_def)

lemma before_request_total:
  assumes "age E p now = Some a"
  shows "\<exists>r. before_request E p rq now = Some r"
  using cached_response_total [OF assms] cached_response_304_total [OF assms]
  by (auto simp: before_request_def satisfies_eq [OF assms] Let_def)

lemma before_request_FreshD:
  assumes "before_request E p rq now = Some (Fresh r)"
  shows "vary_matches E p rq" "satisfies_without_revalidation E p rq now = Some True"
    "\<not> inbound_conditional_matches E p rq" "cached_response E p now = Some r"
  using assms by (auto simp: before_request_def Let_def bind_Some_iff split: if_splits)

lemma before_request_304D:
  assumes "before_request E p rq now = Some (ServeNotModified r)"
  shows "vary_matches E p rq" "satisfies_without_revalidation E p rq now = Some True"
    "inbound_conditional_matches E p rq" "cached_response_304 E p now = Some r"
  using assms by (auto simp: before_request_def Let_def bind_Some_iff split: if_splits)

lemma before_request_StaleD:
  assumes "before_request E p rq now = Some (Stale hs m)"
  shows "m = vary_matches E p rq" "hs = revalidation_request_headers E p rq"
    "m \<Longrightarrow> satisfies_without_revalidation E p rq now = Some False"
  using assms by (auto simp: before_request_def Let_def bind_Some_iff split: if_splits)

lemma before_request_StaleI:
  assumes "satisfies_without_revalidation E p rq now = Some False"
  shows "before_request E p rq now = Some (Stale (revalidation_request_headers E p rq) (vary_matches E p rq))"
  using assms by (cases "vary_matches E p rq") (simp_all add: before_request_def Let_def)

text \<open>A request without conditions and cache directives of its own.\<close>

definition plain_request :: "'h ext \<Rightarrow> 'h \<Rightarrow> bool" where
  "plain_request E rq \<longleftrightarrow> headers_cache_control E rq = None \<and>
     (\<forall>n \<in> {Known Pragma, Known IfNoneMatch, Known IfModifiedSince}. headers_get_str E rq n = None)"

lemma plain_request_decision:
  assumes "plain_request E rq" and "vary_matches E p rq" and "age E p now = Some a"
  shows "before_request E p rq now = (if a < max_age E p then map_option Fresh (cached_response E p now)
     else Some (Stale (revalidation_request_headers E p rq) True))"
proof -
  have "satisfies_without_revalidation E p rq now = Some (a < max_age E p)"
    using assms(1) by (auto simp: satisfies_eq [OF assms(3)] plain_request_def request_no_cache_def stale_permitted_def)
  moreover have "\<not> inbound_conditional_matches E p rq"
    using assms(1) by (simp add: inbound_conditional_matches_def plain_request_def)
  ultimately show ?thesis using assms(2) by (simp add: before_request_def)
qed

subsection \<open>Lemmas: header maps\<close>

lemma get_values_copy_without_hop:
  assumes "headers_laws E"
  shows "headers_get_values E (copy_without_hop_by_hop_headers E h) n =
     (if n \<in> set hop_by_hop_headers \<or> n \<in> set (connection_names E h) then None
      else headers_get_values E h n)"
  using assms
  by (simp add: copy_without_hop_by_hop_headers_def Let_def get_values_foldl_remove headers_laws_simps)

text \<open>The fields a \<open>Connection\<close> field of one line names.\<close>

definition named_by_connection :: "'h ext \<Rightarrow> 'h \<Rightarrow> header_name set" where
  "named_by_connection E hs =
     (case headers_get_values E hs (Known Connection) of
        Some [Utf8 line] \<Rightarrow> {header_name_from E (trim t) | t. t \<in> set (split_char (CHR '','') line) \<and> trim t \<noteq> []}
      | _ \<Rightarrow> {})"

lemma set_connection_names:
  assumes "headers_laws E"
  shows "set (connection_names E hs) = named_by_connection E hs"
  by (auto simp: connection_names_def named_by_connection_def headers_laws_simps(6) [OF assms] as_str_case
      split: option.splits list.splits header_value.splits)

lemma get_values_insert_age:
  assumes "headers_laws E"
  shows "headers_get_values E (insert_age E h a) n =
     (if n = Known Age then Some [Utf8 (u64_to_string (as_secs a))] else headers_get_values E h n)"
  using assms by (simp add: insert_age_def headers_laws_simps)

lemma get_values_merge:
  assumes "headers_laws E"
  shows "headers_get_values E (merge_revalidation_headers E stored new) n =
     (if is_excluded_from_revalidation_update n then headers_get_values E stored n
      else case headers_get_values E new n of
             None \<Rightarrow> headers_get_values E stored n | Some vs \<Rightarrow> Some vs)"
  using assms
  by (simp add: merge_revalidation_headers_def get_values_foldl_insert headers_laws_simps)

lemma get_values_keep_fold:
  assumes "headers_laws E"
  shows "headers_get_values E (foldl (\<lambda>hs name.
             case headers_get_values E src name of
               Some value \<Rightarrow> headers_insert E hs name value
             | None \<Rightarrow> hs) h names) n =
     (if n \<in> set names \<and> headers_get_values E src n \<noteq> None
      then headers_get_values E src n else headers_get_values E h n)"
  by (induction names arbitrary: h)
     (auto simp: headers_laws_simps [OF assms] split: option.splits)

lemma parse_age_value_printed [simp]: "parse_age_value (u64_to_string w) = Some w"
proof -
  have digits: "\<forall>c \<in> set (u64_to_string w). is_ascii_digit c"
    by (auto simp: u64_to_string_def dest: show_nat_digits)
  then have "split_on (\<lambda>c. c = CHR '';'' \<or> c = CHR '','') (u64_to_string w) = [u64_to_string w]"
    by (intro split_on_no_sep) (auto dest!: is_ascii_digit_not_special)
  moreover have "trim (u64_to_string w) = u64_to_string w"
    using digits by (intro trim_id) (auto dest: is_ascii_digit_not_special)
  ultimately show ?thesis by (simp add: parse_age_value_def)
qed

subsection \<open>Lemmas: lists of entity tags\<close>

text \<open>An entity tag as it is written: optional weak prefix, opaque tag in double quotes.\<close>

fun entity_tag :: "bool \<times> string \<Rightarrow> string" where
  "entity_tag (weak, t) = (if weak then ''W/'' else []) @ [dquote] @ t @ [dquote]"

lemma skip_dquote [simp]: "skip_etag_separators (dquote # s) = dquote # s"
  by (simp add: skip_etag_separators.simps [of "dquote # s"] trim_start_def is_whitespace_def)

lemma skip_weak [simp]: "skip_etag_separators (CHR ''W'' # CHR ''/'' # s) = skip_etag_separators s"
  by (simp add: skip_etag_separators.simps [of "CHR ''W'' # CHR ''/'' # s"]
      trim_start_def is_whitespace_def)

lemma skip_space [simp]: "skip_etag_separators (CHR '' '' # s) = skip_etag_separators s"
  by (simp add: skip_etag_separators.simps [of "CHR '' '' # s"] skip_etag_separators.simps [of s]
      trim_start_def is_whitespace_def)

lemma skip_comma [simp]: "skip_etag_separators (CHR '','' # s) = skip_etag_separators s"
  by (simp add: skip_etag_separators.simps [of "CHR '','' # s"] trim_start_def is_whitespace_def)

lemma skip_Nil [simp]: "skip_etag_separators [] = []"
  by (simp add: skip_etag_separators.simps [of "[]"] trim_start_def)

lemma iter_Nil [simp]: "iter_etag_opaques [] = []"
  by (simp add: iter_etag_opaques.simps [of "[]"])

lemma iter_separator: "iter_etag_opaques ('', '' @ s) = iter_etag_opaques s"
  by (simp add: iter_etag_opaques.simps [of "CHR '','' # CHR '' '' # s"] iter_etag_opaques.simps [of s])

lemma iter_entity_tag:
  assumes "dquote \<notin> set t"
  shows "iter_etag_opaques (entity_tag (w, t) @ rest) = t # iter_etag_opaques rest"
  using assms str_find_append [of dquote t rest]
  by (subst iter_etag_opaques.simps) simp

lemma iter_entity_tags:
  assumes "\<forall>x \<in> set tags. dquote \<notin> set (snd x)"
  shows "iter_etag_opaques (join '', '' (map entity_tag tags)) = map snd tags"
  using assms
proof (induction tags)
  case Nil
  then show ?case by simp
next
  case (Cons x tags)
  obtain w t where x: "x = (w, t)" by (cases x)
  have tags: "iter_etag_opaques (join '', '' (map entity_tag tags)) = map snd tags"
    using Cons by simp
  show ?case
  proof (cases tags)
    case Nil
    then show ?thesis
      using Cons.prems x iter_entity_tag [of t w "[]"] by simp
  next
    case (Cons y ys)
    then have "join '', '' (map entity_tag (x # tags))
        = entity_tag (w, t) @ '', '' @ join '', '' (map entity_tag tags)"
      by (simp add: x del: entity_tag.simps)
    then show ?thesis
      using Cons.prems x tags iter_entity_tag [of t w] iter_separator
      by (simp del: entity_tag.simps append.simps)
  qed
qed

lemma trim_entity_tag [simp]: "trim (entity_tag x) = entity_tag x"
  by (cases x) (auto simp: trim_def trim_start_def trim_end_def is_whitespace_def)

lemma etag_opaque_entity_tag [simp]: "etag_opaque (entity_tag (w, t)) = Some t"
proof -
  have "strip_suffix [dquote] (t @ [dquote]) = Some t"
    by (simp add: strip_suffix_Some)
  then show ?thesis
    by (simp add: etag_opaque_def Let_def del: entity_tag.simps) simp
qed

lemma join_entity_tags_ends:
  "tags \<noteq> [] \<Longrightarrow> \<exists>c a. join '', '' (map entity_tag tags) = c # a
     \<and> (c = dquote \<or> c = CHR ''W'') \<and> a \<noteq> [] \<and> last a = dquote"
proof (induction tags)
  case Nil
  then show ?case by simp
next
  case (Cons x tags)
  obtain w t where x: "x = (w, t)" by (cases x)
  show ?case
  proof (cases tags)
    case Nil
    then show ?thesis by (simp add: x)
  next
    case (Cons y ys)
    then obtain c a where "join '', '' (map entity_tag tags) = c # a" "a \<noteq> []" "last a = dquote"
      using Cons.IH by auto
    then show ?thesis
      using Cons by (simp add: x del: entity_tag.simps) simp
  qed
qed

lemma trim_join_entity_tags:
  assumes "tags \<noteq> []"
  shows "trim (join '', '' (map entity_tag tags)) = join '', '' (map entity_tag tags)"
    and "join '', '' (map entity_tag tags) \<noteq> ''*''"
  using join_entity_tags_ends [OF assms]
  by (auto simp: trim_def trim_start_def is_whitespace_def intro!: trim_end_id)

subsection \<open>Lemmas: revalidation requests\<close>

text \<open>The header fields a revalidation request may differ in from the request it is made from.\<close>

definition revalidation_touches :: "'h ext \<Rightarrow> 'h \<Rightarrow> header_name set" where
  "revalidation_touches E rq =
     set hop_by_hop_headers \<union> set (connection_names E rq)
     \<union> {Known IfRange, Known IfNoneMatch, Known IfModifiedSince}"

text \<open>The contexts in which weak validators may not be used.\<close>

definition forbids_weak_validators :: "'h ext \<Rightarrow> 'h cache_policy \<Rightarrow> 'h \<Rightarrow> bool" where
  "forbids_weak_validators E p rq \<longleftrightarrow>
     request_method p \<noteq> Get \<or>
     (\<exists>n \<in> {Known AcceptRanges, Known IfMatch, Known IfUnmodifiedSince}.
        headers_get_values E (copy_without_hop_by_hop_headers E rq) n \<noteq> None)"

text \<open>
  The \<open>If-None-Match\<close> lines before weak tags are dropped: without a stored entity tag those of
  the client, otherwise one line, the stored tag after the client's tags if those are on one
  line.
\<close>

definition if_none_match_lines :: "'h ext \<Rightarrow> 'h cache_policy \<Rightarrow> 'h \<Rightarrow> header_value list option" where
  "if_none_match_lines E p rq =
     (let own = headers_get_values E (copy_without_hop_by_hop_headers E rq) (Known IfNoneMatch)
      in case headers_get_str E (response_headers p) (Known Etag) of
           None \<Rightarrow> own
         | Some etag \<Rightarrow> Some [Utf8 (case own of Some [Utf8 tags] \<Rightarrow> tags @ '', '' @ etag | _ \<Rightarrow> etag)])"

text \<open>The tags of a list that are not marked as weak.\<close>

definition strong_tags :: "string \<Rightarrow> string list" where
  "strong_tags inm =
     filter (\<lambda>t. \<not> starts_with ''W/'' t) (map trim (split_char (CHR '','') inm))"

lemma get_values_add_etag:
  assumes "headers_laws E" and "n \<noteq> Known IfNoneMatch"
  shows "headers_get_values E (add_etag_validator E p h) n = headers_get_values E h n"
  using assms(2)
  by (simp add: add_etag_validator_def Let_def headers_laws_simps(2) [OF assms(1)] split: option.splits)

lemma get_values_drop_weak:
  assumes "headers_laws E"
  shows "n \<notin> {Known IfNoneMatch, Known IfModifiedSince} \<Longrightarrow>
      headers_get_values E (drop_weak_validators E h) n = headers_get_values E h n"
    and "headers_get_values E (drop_weak_validators E h) (Known IfModifiedSince) = None"
    and "headers_get_values E (drop_weak_validators E h) (Known IfNoneMatch) =
      (case headers_get_values E h (Known IfNoneMatch) of
         Some [Utf8 inm] \<Rightarrow>
           if join '', '' (strong_tags inm) = [] then None else Some [Utf8 (join '', '' (strong_tags inm))]
       | lines \<Rightarrow> lines)"
  by (auto simp: drop_weak_validators_def strong_tags_def Let_def headers_laws_simps(2,3,6) [OF assms] as_str_case
      split: option.split list.split header_value.split)

lemma get_values_add_last_modified:
  assumes "headers_laws E"
  shows "n \<noteq> Known IfModifiedSince \<Longrightarrow>
      headers_get_values E (add_last_modified_validator E p h) n = headers_get_values E h n"
    and "headers_get_values E h (Known IfModifiedSince) = None \<Longrightarrow>
      headers_get_values E (add_last_modified_validator E p h) (Known IfModifiedSince) =
      map_option (\<lambda>lm. [Utf8 lm]) (headers_get_str E (response_headers p) (Known LastModified))"
  by (simp_all add: add_last_modified_validator_def headers_laws_simps(2) [OF assms] split: option.splits)

lemma revalidation_cases:
  fixes p :: "'h cache_policy" and rq :: 'h
  assumes "headers_laws E"
  defines "h \<equiv> add_etag_validator E p
     (headers_remove E (copy_without_hop_by_hop_headers E rq) (Known IfRange))"
  shows "revalidation_request_headers E p rq =
     (if forbids_weak_validators E p rq then drop_weak_validators E h
      else if headers_get_values E (copy_without_hop_by_hop_headers E rq) (Known IfModifiedSince) = None
      then add_last_modified_validator E p h else h)"
  by (simp add: revalidation_request_headers_def forbids_weak_validators_def h_def Let_def
      headers_laws_simps(3,5) [OF assms(1)] get_values_add_etag [OF assms(1)])

lemma revalidation_untouched:
  assumes "headers_laws E" and "n \<notin> revalidation_touches E rq"
  shows "headers_get_values E (revalidation_request_headers E p rq) n = headers_get_values E rq n"
  using assms(2)
  by (simp add: revalidation_cases [OF assms(1)] revalidation_touches_def
      headers_laws_simps(3) [OF assms(1)] get_values_add_etag [OF assms(1)]
      get_values_drop_weak(1) [OF assms(1)] get_values_add_last_modified(1) [OF assms(1)]
      get_values_copy_without_hop [OF assms(1)])

lemma revalidation_if_range:
  assumes "headers_laws E"
  shows "headers_get_values E (revalidation_request_headers E p rq) (Known IfRange) = None"
  by (simp add: revalidation_cases [OF assms] headers_laws_simps(3) [OF assms]
      get_values_add_etag [OF assms] get_values_drop_weak(1) [OF assms]
      get_values_add_last_modified(1) [OF assms])

lemma if_none_match_add_etag:
  assumes "headers_laws E"
  shows "headers_get_values E (add_etag_validator E p
     (headers_remove E (copy_without_hop_by_hop_headers E rq) (Known IfRange))) (Known IfNoneMatch)
     = if_none_match_lines E p rq"
  by (auto simp: add_etag_validator_def if_none_match_lines_def Let_def headers_laws_simps(2,3,6) [OF assms]
      as_str_case split: option.split list.split header_value.split)

lemma revalidation_if_none_match:
  assumes "headers_laws E"
  shows "headers_get_values E (revalidation_request_headers E p rq) (Known IfNoneMatch) =
     (if forbids_weak_validators E p rq then
        (case if_none_match_lines E p rq of
           Some [Utf8 inm] \<Rightarrow>
             if join '', '' (strong_tags inm) = [] then None else Some [Utf8 (join '', '' (strong_tags inm))]
         | lines \<Rightarrow> lines)
      else if_none_match_lines E p rq)"
  by (simp add: revalidation_cases [OF assms] if_none_match_add_etag [OF assms]
      get_values_drop_weak(3) [OF assms] get_values_add_last_modified(1) [OF assms])

lemma revalidation_if_modified_since:
  assumes "headers_laws E"
  shows "headers_get_values E (revalidation_request_headers E p rq) (Known IfModifiedSince) =
     (if forbids_weak_validators E p rq then None
      else case headers_get_values E (copy_without_hop_by_hop_headers E rq) (Known IfModifiedSince) of
             Some v \<Rightarrow> Some v
           | None \<Rightarrow> map_option (\<lambda>lm. [Utf8 lm])
                      (headers_get_str E (response_headers p) (Known LastModified)))"
proof -
  have "headers_get_values E (add_etag_validator E p (headers_remove E h (Known IfRange)))
      (Known IfModifiedSince) = headers_get_values E h (Known IfModifiedSince)" for h
    by (simp add: get_values_add_etag [OF assms] headers_laws_simps(3) [OF assms])
  then show ?thesis
    by (auto simp: revalidation_cases [OF assms] get_values_drop_weak(2) [OF assms]
        get_values_add_last_modified(2) [OF assms] split: option.splits)
qed

lemma trim_idem [simp]: "trim (trim s) = trim s"
proof -
  have "\<not> is_whitespace (hd (trim_start s))" if "trim_start s \<noteq> []"
    using that unfolding trim_start_def by (rule hd_dropWhile)
  moreover have "\<not> is_whitespace (last (trim_end r))" if "trim_end r \<noteq> []" for r
    using that unfolding trim_end_def by (simp add: last_rev hd_dropWhile)
  moreover have "hd (trim_end r) = hd r" if "trim_end r \<noteq> []" for r
  proof -
    obtain ws where "rev r = ws @ dropWhile is_whitespace (rev r)"
      by (metis takeWhile_dropWhile_id)
    then have "r = trim_end r @ rev ws"
      unfolding trim_end_def by (metis rev_append rev_rev_ident)
    then show ?thesis using that by (metis hd_append2)
  qed
  ultimately have "trim s = [] \<or> \<not> is_whitespace (hd (trim s)) \<and> \<not> is_whitespace (last (trim s))"
    unfolding trim_def by (metis trim_end_def dropWhile.simps(1) rev.simps(1))
  then show ?thesis
    by (metis trim_def trim_start_id trim_end_id)
qed

lemma trim_space [simp]: "trim (CHR '' '' # s) = trim s"
  by (simp add: trim_def trim_start_def is_whitespace_def)

lemma split_join_comma_space:
  assumes "xs \<noteq> []" and "\<forall>x \<in> set xs. trim x = x \<and> CHR '','' \<notin> set x"
  shows "map trim (split_char (CHR '','') (join '', '' xs)) = xs"
  using assms
proof (induction "'', ''" xs rule: join.induct)
  case 1
  then show ?case by simp
next
  case (2 x)
  then show ?case by simp
next
  case (3 x y ys)
  then have IH: "map trim (split_char (CHR '','') (join '', '' (y # ys))) = y # ys"
    by simp
  have "split_char (CHR '','') (join '', '' (x # y # ys))
      = x # split_char (CHR '','') (CHR '' '' # join '', '' (y # ys))"
    using 3 split_on_append_sep [of "\<lambda>c. c = CHR '',''" "CHR '',''" x] by simp
  moreover have "map trim (split_char (CHR '','') (CHR '' '' # join '', '' (y # ys))) = y # ys"
    using IH by (auto split: list.splits)
  ultimately show ?case using 3 by simp
qed

lemma set_trim: "set (trim s) \<subseteq> set s"
  by (auto simp: trim_def trim_start_def trim_end_def dest!: set_dropWhileD)

lemma join_eq_Nil: "join '', '' xs = [] \<longleftrightarrow> xs = [] \<or> xs = [[]]"
  by (induction xs rule: induct_list012) auto

lemma strong_tags_split:
  assumes "strong_tags inm \<noteq> []"
  shows "map trim (split_char (CHR '','') (join '', '' (strong_tags inm))) = strong_tags inm"
proof (rule split_join_comma_space [OF assms])
  have "CHR '','' \<notin> set (trim piece)" if "piece \<in> set (split_char (CHR '','') inm)" for piece
    using split_on_pieces [OF that] set_trim [of piece] by blast
  then show "\<forall>x \<in> set (strong_tags inm). trim x = x \<and> CHR '','' \<notin> set x"
    by (auto simp: strong_tags_def)
qed

subsection \<open>Properties\<close>

text \<open>
  Deciding what to do with a request panics only when the age of the stored response
  exceeds the largest \<open>Duration\<close>. In particular the subtraction \<open>age - max_age\<close> made for
  the request's \<open>max-stale\<close> never underflows.
\<close>

theorem before_request_panics_only_on_age:
  assumes "before_request E p rq now = None"
  shows "duration_max < age_header_value E p + nat (now - response_time p)"
proof -
  have "age E p now = None"
    using assms before_request_total [of E p now _ rq] by (cases "age E p now") auto
  then show ?thesis
    by (simp add: age_None_iff resident_time_def)
qed

theorem before_request_panics_only_on_age_witness:
  "duration_max < age_header_value ref_env (policy_new ref_env Get [] 200
       [(Known Age, [Utf8 ''18446744073709551615''])] 0 cache_options_default) + nat (1000000000 - 0)"
proof -
  have "before_request ref_env (policy_new ref_env Get [] 200
      [(Known Age, [Utf8 ''18446744073709551615''])] 0 cache_options_default) [] 1000000000 = None"
    by code_simp
  from before_request_panics_only_on_age [OF this] show ?thesis by simp
qed

text \<open>
  C6: a stored response is reused without contacting the origin only if its \<open>Vary\<close>
  signature matches, the request does not force revalidation, the request's \<open>max-age\<close> and
  \<open>min-fresh\<close> hold, and it is fresh or the request accepts its staleness and the response
  does not forbid that with \<open>must-revalidate\<close>.
\<close>

theorem reuse_sound:
  assumes "before_request E p rq now = Some r" and "r = Fresh c \<or> r = ServeNotModified c"
  shows "vary_matches E p rq \<and> \<not> request_no_cache E rq \<and>
     (\<exists>a. age E p now = Some a \<and>
        (\<forall>m. Option.bind (headers_cache_control E rq) cc_max_age = Some m \<longrightarrow> a \<le> m) \<and>
        (\<forall>m. Option.bind (headers_cache_control E rq) min_fresh = Some m \<longrightarrow> m \<le> max_age E p - a) \<and>
        (a < max_age E p \<or> stale_permitted E p rq (a - max_age E p)))"
proof -
  have match: "vary_matches E p rq"
    and sat: "satisfies_without_revalidation E p rq now = Some True"
    using assms before_request_FreshD [of E p rq now c] before_request_304D [of E p rq now c] by auto
  obtain a where a: "age E p now = Some a"
    using assms
    by (auto simp: cached_response_Some_iff cached_response_304_def bind_Some_iff Let_def
        dest!: before_request_FreshD(4) before_request_304D(4))
  show ?thesis
    using match sat a by (auto simp: satisfies_eq [OF a] split: option.splits)
qed

theorem reuse_sound_witness:
  "vary_matches ref_env (ref_policy ''max-age=600'' 0) []"
proof -
  obtain c where "before_request ref_env (ref_policy ''max-age=600'' 0) [] 5000000000 = Some (Fresh c)"
  proof -
    have "(case before_request ref_env (ref_policy ''max-age=600'' 0) [] 5000000000 of
        Some (Fresh c) \<Rightarrow> True | _ \<Rightarrow> False)" by code_simp
    then show thesis using that by (auto split: option.splits BeforeRequest.splits)
  qed
  from reuse_sound [OF this] show ?thesis by blast
qed

text \<open>The head served on a hit.\<close>

lemma served_head:
  assumes "headers_laws E" and "before_request E p rq now = Some (Fresh r)"
  shows "cr_status r = response_status p \<and>
     (\<exists>a. age E p now = Some a \<and>
        (\<forall>n. headers_get_values E (cr_headers r) n =
          (if n = Known Age then Some [Utf8 (u64_to_string (as_secs a))]
           else if n \<in> set hop_by_hop_headers \<or> n \<in> set (connection_names E (response_headers p)) then None
           else headers_get_values E (response_headers p) n)))"
  using before_request_FreshD(4) [OF assms(2)]
  by (auto simp: cached_response_Some_iff get_values_insert_age [OF assms(1)]
      get_values_copy_without_hop [OF assms(1)])

text \<open>
  A cache downstream that stores the served head reads back exactly the age this cache
  reported, in whole seconds.
\<close>

theorem served_age_roundtrip:
  assumes "headers_laws E" and "cached_response E p now = Some r" and "age E p now = Some a"
  shows "age_header_value E (policy_new E m rq st (cr_headers r) t opts)
           = (a div nanos_per_sec) * nanos_per_sec"
proof -
  have "a \<le> duration_max" using assms(3) by (simp add: age_Some_iff)
  then show ?thesis
    using assms
    by (auto simp: cached_response_Some_iff age_header_value_def get_values_insert_age [OF assms(1)]
        duration_from_secs_def unat_as_secs)
qed

theorem served_age_roundtrip_witness:
  "age_header_value ref_env (policy_new ref_env Get [] 200
     (cr_headers (the (cached_response ref_env (ref_policy ''max-age=600'' 0) 5700000000))) 0 cache_options_default)
   = (5700000000 div nanos_per_sec) * nanos_per_sec"
proof (rule served_age_roundtrip)
  show a: "age ref_env (ref_policy ''max-age=600'' 0) 5700000000 = Some 5700000000" by code_simp
  from cached_response_total [OF a]
  show "cached_response ref_env (ref_policy ''max-age=600'' 0) 5700000000
      = Some (the (cached_response ref_env (ref_policy ''max-age=600'' 0) 5700000000))" by auto
qed (rule ref_env_headers_laws)

text \<open>The head of a 304 answered from the cache.\<close>

lemma not_modified_head:
  assumes "headers_laws E" and "before_request E p rq now = Some (ServeNotModified r)"
  shows "cr_status r = 304 \<and>
     (\<exists>a. age E p now = Some a \<and>
        (\<forall>n. headers_get_values E (cr_headers r) n =
          (if n = Known Age then Some [Utf8 (u64_to_string (as_secs a))]
           else if n \<in> set HEADERS_TO_KEEP then headers_get_values E (response_headers p) n else None)))"
  using before_request_304D(4) [OF assms(2)]
  by (auto simp: cached_response_304_def bind_Some_iff Let_def get_values_insert_age [OF assms(1)]
      get_values_keep_fold [OF assms(1)] headers_laws_simps(1) [OF assms(1)])

text \<open>
  C23: what the cache answers with. The head served on a hit has the stored status, an \<open>Age\<close>
  field with the current age in seconds, none of the fixed list of hop-by-hop fields, none of
  the fields a \<open>Connection\<close> field of one line names, and every other stored field unchanged;
  when \<open>Connection\<close> has several lines, those are all the fields outside the fixed list, also
  the ones \<open>Connection\<close> names. The head of a 304 answered from the cache carries only the
  fields that describe the stored representation (\<open>HEADERS_TO_KEEP\<close>) and \<open>Age\<close>; body fields
  are left out.
\<close>

theorem served_heads:
  assumes "headers_laws E" and "before_request E p rq now = Some d" and "d = Fresh r \<or> d = ServeNotModified r"
  shows "cr_status r = (if d = Fresh r then response_status p else 304) \<and>
     (\<exists>a. age E p now = Some a \<and>
        (\<forall>n. headers_get_values E (cr_headers r) n =
          (if n = Known Age then Some [Utf8 (u64_to_string (as_secs a))]
           else if (if d = Fresh r
                    then n \<notin> set hop_by_hop_headers \<and> n \<notin> named_by_connection E (response_headers p)
                    else n \<in> set HEADERS_TO_KEEP)
           then headers_get_values E (response_headers p) n else None)))"
  using assms(3)
proof
  assume d: "d = Fresh r"
  then show ?thesis
    using served_head [OF assms(1), of p rq now r] assms(2)
    by (auto simp: set_connection_names [OF assms(1)])
next
  assume d: "d = ServeNotModified r"
  then show ?thesis using not_modified_head [OF assms(1), of p rq now r] assms(2) by auto
qed

theorem served_heads_witness:
  "\<exists>r r'. before_request ref_env (ref_policy ''max-age=600'' 0) [] 5000000000 = Some (Fresh r) \<and> cr_status r = 200 \<and>
     before_request ref_env (ref_policy ''max-age=600'' 0) [(Known IfNoneMatch, [Utf8 ''*''])] 5000000000
         = Some (ServeNotModified r') \<and> cr_status r' = 304"
proof -
  have "(case before_request ref_env (ref_policy ''max-age=600'' 0) [] 5000000000 of
      Some (Fresh c) \<Rightarrow> True | _ \<Rightarrow> False)"
    and "(case before_request ref_env (ref_policy ''max-age=600'' 0)
      [(Known IfNoneMatch, [Utf8 ''*''])] 5000000000 of
      Some (ServeNotModified c) \<Rightarrow> True | _ \<Rightarrow> False)" by code_simp+
  then obtain r r' where r: "before_request ref_env (ref_policy ''max-age=600'' 0) [] 5000000000 = Some (Fresh r)"
    and r': "before_request ref_env (ref_policy ''max-age=600'' 0) [(Known IfNoneMatch, [Utf8 ''*''])] 5000000000
      = Some (ServeNotModified r')"
    by (auto split: option.splits BeforeRequest.splits)
  from served_heads [OF ref_env_headers_laws r, of r] served_heads [OF ref_env_headers_laws r', of r'] r r'
  show ?thesis by (simp add: ref_policy_def)
qed

text \<open>
  \<open>If-None-Match\<close> is evaluated by weak comparison: a list of entity tags, weak or
  strong, matches the stored tag exactly when one of its opaque tags is the stored one.
\<close>

theorem inm_weak_comparison:
  assumes "tags \<noteq> []" and "\<forall>x \<in> set tags. dquote \<notin> set (snd x)"
  shows "inm_matches (join '', '' (map entity_tag tags)) (Some (entity_tag (w, t)))
           \<longleftrightarrow> t \<in> snd ` set tags"
  using trim_join_entity_tags [OF assms(1)] iter_entity_tags [OF assms(2)]
  by (auto simp: inm_matches_def Let_def list_ex_iff simp del: entity_tag.simps)

theorem inm_weak_comparison_witness:
  "inm_matches (join '', '' (map entity_tag [(True, ''v1''), (False, ''v2'')])) (Some (entity_tag (True, ''v2'')))
     \<longleftrightarrow> ''v2'' \<in> snd ` set [(True, ''v1''), (False, ''v2'')]"
  by (rule inm_weak_comparison) simp_all

text \<open>
  C24: where weak validators are allowed (a stored \<open>GET\<close> response and no \<open>Accept-Ranges\<close>,
  \<open>If-Match\<close> or \<open>If-Unmodified-Since\<close> on the request), a revalidation request carries the
  stored entity tag, after the client's own tags if the client sent those on one line and in
  place of them if on several; the stored \<open>Last-Modified\<close> unless the client sent an
  \<open>If-Modified-Since\<close> of its own; no \<open>If-Range\<close>; and every other end-to-end field as the
  client sent it.
\<close>

theorem revalidation_validators:
  assumes "headers_laws E" and "before_request E p rq now = Some (Stale hs m)"
    and "\<not> forbids_weak_validators E p rq"
  defines "own \<equiv> headers_get_values E (copy_without_hop_by_hop_headers E rq)"
  shows "headers_get_values E hs (Known IfNoneMatch) =
       (case headers_get_str E (response_headers p) (Known Etag) of
          None \<Rightarrow> own (Known IfNoneMatch)
        | Some etag \<Rightarrow>
            Some [Utf8 (case own (Known IfNoneMatch) of Some [Utf8 tags] \<Rightarrow> tags @ '', '' @ etag | _ \<Rightarrow> etag)]) \<and>
     headers_get_values E hs (Known IfModifiedSince) =
       (case own (Known IfModifiedSince) of
          Some v \<Rightarrow> Some v
        | None \<Rightarrow> map_option (\<lambda>lm. [Utf8 lm])
                   (headers_get_str E (response_headers p) (Known LastModified))) \<and>
     headers_get_values E hs (Known IfRange) = None \<and>
     (\<forall>n. n \<notin> revalidation_touches E rq \<longrightarrow> headers_get_values E hs n = headers_get_values E rq n)"
  unfolding own_def
  using assms(3) before_request_StaleD(2) [OF assms(2)]
  by (simp add: revalidation_if_none_match [OF assms(1)] if_none_match_lines_def Let_def
      revalidation_if_modified_since [OF assms(1)]
      revalidation_if_range [OF assms(1)] revalidation_untouched [OF assms(1)])

text \<open>A stale stored response with a weak and a strong validator, for the witnesses.\<close>

definition ref_stale_policy :: "string \<Rightarrow> hmap cache_policy" where
  "ref_stale_policy etag =
     policy_new ref_env Get [] 200
       [(Known CacheControl, [Utf8 ''max-age=1'']), (Known Etag, [Utf8 etag]),
        (Known LastModified, [Utf8 ''0''])] 0 cache_options_default"


theorem revalidation_validators_witness:
  "\<exists>hs m. before_request ref_env (ref_stale_policy ''v1'') [(Known IfNoneMatch, [Utf8 ''c1''])] 5000000000 = Some (Stale hs m)
     \<and> headers_get_values ref_env hs (Known IfNoneMatch) = Some [Utf8 ''c1, v1'']"
proof -
  let ?p = "ref_stale_policy ''v1''" and ?rq = "[(Known IfNoneMatch, [Utf8 ''c1''])]"
  have "satisfies_without_revalidation ref_env ?p ?rq 5000000000 = Some False" by code_simp
  from before_request_StaleI [OF this] obtain hs m where b:
    "before_request ref_env ?p ?rq 5000000000 = Some (Stale hs m)"
    by blast
  have "\<not> forbids_weak_validators ref_env ?p ?rq" by code_simp
  note v = revalidation_validators [OF ref_env_headers_laws b this]
  have "headers_get_str ref_env (response_headers ?p) (Known Etag) = Some ''v1''"
    "headers_get_values ref_env (copy_without_hop_by_hop_headers ref_env ?rq) (Known IfNoneMatch) = Some [Utf8 ''c1'']"
    by code_simp+
  with v b show ?thesis by auto
qed

text \<open>
  C25: in the contexts that forbid weak validators (another method than \<open>GET\<close>, or a range or
  precondition field on the request), no \<open>If-Modified-Since\<close> is sent. If \<open>If-None-Match\<close> would
  be one line, it is sent with exactly its tags that are not weak, in their order, and left
  out when there are none. Several lines of the client, which stay when there is no stored tag,
  are sent as they are, weak tags included.
\<close>

theorem weak_validators_dropped:
  assumes "headers_laws E" and "before_request E p rq now = Some (Stale hs m)"
    and "forbids_weak_validators E p rq"
  shows "headers_get_values E hs (Known IfModifiedSince) = None \<and>
     (case if_none_match_lines E p rq of
        Some [Utf8 inm] \<Rightarrow>
          (if strong_tags inm = [] \<or> strong_tags inm = [[]] then headers_get_values E hs (Known IfNoneMatch) = None
           else \<exists>sent. headers_get_values E hs (Known IfNoneMatch) = Some [Utf8 sent] \<and>
             map trim (split_char (CHR '','') sent) = strong_tags inm)
      | lines \<Rightarrow> headers_get_values E hs (Known IfNoneMatch) = lines)"
proof -
  have hs: "hs = revalidation_request_headers E p rq"
    using before_request_StaleD(2) [OF assms(2)] .
  show ?thesis
    using assms(3) strong_tags_split
    by (auto simp: hs revalidation_if_modified_since [OF assms(1)]
        revalidation_if_none_match [OF assms(1)] join_eq_Nil
        split: option.split list.split header_value.split)
qed

theorem weak_validators_dropped_witness:
  "\<exists>hs m sent. before_request ref_env (ref_stale_policy ''v1'')
        [(Known IfMatch, [Utf8 ''x'']), (Known IfNoneMatch, [Utf8 ''W/v0''])] 5000000000 = Some (Stale hs m)
     \<and> headers_get_values ref_env hs (Known IfModifiedSince) = None
     \<and> headers_get_values ref_env hs (Known IfNoneMatch) = Some [Utf8 sent]
     \<and> map trim (split_char (CHR '','') sent) = [''v1'']"
proof -
  let ?p = "ref_stale_policy ''v1''" and ?rq = "[(Known IfMatch, [Utf8 ''x'']), (Known IfNoneMatch, [Utf8 ''W/v0''])]"
  have "satisfies_without_revalidation ref_env ?p ?rq 5000000000 = Some False" by code_simp
  from before_request_StaleI [OF this] obtain hs m where b:
    "before_request ref_env ?p ?rq 5000000000 = Some (Stale hs m)"
    by blast
  have "forbids_weak_validators ref_env ?p ?rq" by code_simp
  note v = weak_validators_dropped [OF ref_env_headers_laws b this]
  have "if_none_match_lines ref_env ?p ?rq = Some [Utf8 ''W/v0, v1'']" "strong_tags ''W/v0, v1'' = [''v1'']"
    by code_simp+
  with v b show ?thesis by auto
qed

text \<open>
  C19: a 304, whatever validators it carries, and nothing else counts as a successful
  revalidation, and integrating an answer never panics. The refreshed policy has the stored
  status, method and options, the time of the answer, and the stored header fields overridden
  by those of the 304, except the fields that describe the stored body
  (\<open>Content-Length\<close>, \<open>Content-Encoding\<close>, \<open>Transfer-Encoding\<close>, \<open>Content-Range\<close>), which are
  kept; the head to serve is the one of the refreshed policy.
\<close>

theorem revalidated_policy:
  assumes "headers_laws E"
  shows "if st = 304 then \<exists>q c. after_response E p rq st hs t = Some (Refreshed q c) \<and>
        policy_wf E q \<and> cached_response E q t = Some c \<and>
        request_method q = request_method p \<and> response_status q = response_status p \<and>
        options q = options p \<and> response_time q = t \<and>
        (\<forall>n. headers_get_values E (response_headers q) n =
           (if n \<in> {Known ContentLength, Known ContentEncoding, Known TransferEncoding, Known ContentRange}
            then headers_get_values E (response_headers p) n
            else case headers_get_values E hs n of
                   Some vs \<Rightarrow> Some vs
                 | None \<Rightarrow> headers_get_values E (response_headers p) n))
     else after_response E p rq st hs t = Some Modified"
proof (cases "st = 304")
  case True
  let ?q = "policy_new E (request_method p) rq (response_status p)
      (merge_revalidation_headers E (response_headers p) hs) t (options p)"
  obtain c where c: "after_response E p rq 304 hs t = Some (Refreshed ?q c)" "cached_response E ?q t = Some c"
    using after_response_304 [of E p rq hs t] by (auto simp: after_response_def Let_def)
  have "headers_get_values E (response_headers ?q) n =
      (if n \<in> {Known ContentLength, Known ContentEncoding, Known TransferEncoding, Known ContentRange}
       then headers_get_values E (response_headers p) n
       else case headers_get_values E hs n of
              Some vs \<Rightarrow> Some vs | None \<Rightarrow> headers_get_values E (response_headers p) n)" for n
    by (auto simp: get_values_merge [OF assms] is_excluded_from_revalidation_update_def split: option.split)
  with True c show ?thesis by simp
qed (simp add: after_response_other)

theorem revalidated_policy_witness:
  "\<exists>q c. after_response ref_env (ref_stale_policy ''v1'') [] 304 [(Known Etag, [Utf8 ''v2''])] 9000000000 = Some (Refreshed q c)
     \<and> response_status q = 200 \<and> response_time q = 9000000000
     \<and> headers_get_values ref_env (response_headers q) (Known Etag) = Some [Utf8 ''v2'']
     \<and> after_response ref_env (ref_stale_policy ''v1'') [] 200 [] 0 = Some Modified"
proof -
  let ?p = "ref_stale_policy ''v1''" and ?hs = "[(Known Etag, [Utf8 ''v2''])]"
  have "response_status ?p = 200" "headers_get_values ref_env ?hs (Known Etag) = Some [Utf8 ''v2'']" by code_simp+
  then show ?thesis
    using revalidated_policy [OF ref_env_headers_laws, of 304 ?p "[]" ?hs 9000000000]
      revalidated_policy [OF ref_env_headers_laws, of 200 ?p "[]" "[]" 0]
    by auto
qed

text \<open>
  C18: a successful revalidation refreshes the stored variant in place. If the stored
  response was selected for the request (its \<open>Vary\<close> signature matches), the 304 does not
  change \<open>Vary\<close>, and \<open>Vary\<close> names none of the fields the cache rewrites in revalidation
  requests, then the refreshed policy is the same variant as the stored one, so the storage
  finds the entry to refresh.
\<close>

theorem refresh_same_variant:
  assumes "headers_laws E"
    and "vary_snapshot p = build_vary_snapshot E (response_headers p) rq0"
    and "before_request E p rq now = Some (Stale rq' True)"
    and "after_response E p rq' 304 hs t = Some (Refreshed q c)"
    and "headers_get_values E hs (Known Vary) \<in> {None, headers_get_values E (response_headers p) (Known Vary)}"
    and "\<forall>n \<in> fst ` set (vary_snapshot p). header_name_from E n \<notin> revalidation_touches E rq"
  shows "same_variant_as p q"
proof -
  note stale = before_request_StaleD [OF assms(3)]
  let ?rs = "merge_revalidation_headers E (response_headers p) hs"
  have q: "vary_snapshot q = build_vary_snapshot E ?rs rq'"
    using assms(4) by (auto simp: after_response_def Let_def)
  have "build_vary_snapshot E ?rs rq' = build_vary_snapshot E (response_headers p) rq0"
  proof (rule build_vary_snapshot_cong)
    show "headers_get_values E (response_headers p) (Known Vary) = headers_get_values E ?rs (Known Vary)"
      using assms(5)
      by (auto simp: get_values_merge [OF assms(1)] is_excluded_from_revalidation_update_def
          split: option.split)
    fix n assume "n \<in> fst ` set (build_vary_snapshot E (response_headers p) rq0)"
    then obtain v where nv: "(n, v) \<in> set (vary_snapshot p)" using assms(2) by auto
    have "headers_get_str E rq0 (header_name_from E n) = v"
      using vary_snapshot_entry nv assms(2) by metis
    moreover have "headers_get_str E rq (header_name_from E n) = v"
      using stale(1) nv by (auto simp: vary_matches_iff)
    moreover have "headers_get_str E rq' (header_name_from E n) = headers_get_str E rq (header_name_from E n)"
      using nv assms(6) stale(2)
      by (intro get_str_cong [OF assms(1)]) (auto simp: revalidation_untouched [OF assms(1)] rev_image_eqI)
    ultimately show "headers_get_str E rq0 (header_name_from E n) = headers_get_str E rq' (header_name_from E n)"
      by simp
  qed
  then show ?thesis using q assms(2) by (simp add: same_variant_as_def)
qed

theorem refresh_same_variant_witness:
  "\<exists>p rq' q c. after_response ref_env p rq' 304 [] 6000000000 = Some (Refreshed q c)
     \<and> vary_snapshot p = [(''accept'', Some ''text'')] \<and> same_variant_as p q"
proof -
  let ?rq = "[(Known Accept, [Utf8 ''text''])]"
  let ?hs = "[(Known CacheControl, [Utf8 ''max-age=1'']), (Known Vary, [Utf8 ''Accept''])]"
  let ?p = "policy_new ref_env Get ?rq 200 ?hs 0 cache_options_default"
  have s: "satisfies_without_revalidation ref_env ?p ?rq 5000000000 = Some False" by code_simp
  have "vary_matches ref_env ?p ?rq" by code_simp
  with before_request_StaleI [OF s]
  obtain rq' where b: "before_request ref_env ?p ?rq 5000000000 = Some (Stale rq' True)"
    by simp
  obtain q c where a: "after_response ref_env ?p rq' 304 [] 6000000000 = Some (Refreshed q c)"
    using after_response_304 [of ref_env ?p rq' "[]" 6000000000] by auto
  have "same_variant_as ?p q"
  proof (rule refresh_same_variant [OF ref_env_headers_laws _ b a])
    show "vary_snapshot ?p = build_vary_snapshot ref_env (response_headers ?p) ?rq" by simp
    show "headers_get_values ref_env [] (Known Vary)
        \<in> {None, headers_get_values ref_env (response_headers ?p) (Known Vary)}"
      by (simp add: ref_env_def ref_get_values_def)
    show "\<forall>n \<in> fst ` set (vary_snapshot ?p). header_name_from ref_env n \<notin> revalidation_touches ref_env ?rq"
      by code_simp
  qed
  moreover have "vary_snapshot ?p = [(''accept'', Some ''text'')]" by code_simp
  ultimately show ?thesis using a by blast
qed

text \<open>
  C31: a stored \<open>no-cache\<close> response is served without revalidation to a request that says
  \<open>max-stale\<close>: the code treats it as a response of lifetime zero, and only
  \<open>must-revalidate\<close> forbids the staleness the request accepts.
\<close>

theorem no_cache_served_to_max_stale:
  assumes "is_some_and (response_cache_control p) is_no_cache"
    and "\<not> is_some_and (response_cache_control p) must_revalidate"
    and "Option.bind (headers_cache_control E rq) max_stale = Some None"
    and "Option.bind (headers_cache_control E rq) cc_max_age = None"
    and "Option.bind (headers_cache_control E rq) min_fresh = None"
    and "\<not> request_no_cache E rq" and "vary_matches E p rq"
    and "\<not> inbound_conditional_matches E p rq" and "age E p now = Some a"
  shows "is_stale E p now = Some True \<and> (\<exists>c. before_request E p rq now = Some (Fresh c))"
proof -
  have "max_age E p = 0" using assms(1) by (simp add: max_age_def)
  moreover have "satisfies_without_revalidation E p rq now = Some True"
    using assms by (simp add: satisfies_eq [OF assms(9)] stale_permitted_def)
  moreover obtain c where "cached_response E p now = Some c"
    using cached_response_total [OF assms(9)] by blast
  ultimately show ?thesis
    using assms by (auto simp: before_request_def is_stale_Some_iff)
qed

theorem no_cache_served_to_max_stale_witness:
  "\<exists>c. before_request ref_env (ref_policy ''no-cache'' 0)
         [(Known CacheControl, [Utf8 ''max-stale''])] 86400000000000 = Some (Fresh c)"
proof -
  let ?p = "ref_policy ''no-cache'' 0" and ?rq = "[(Known CacheControl, [Utf8 ''max-stale''])]"
  have 1: "is_some_and (response_cache_control ?p) is_no_cache" by code_simp
  have 2: "\<not> is_some_and (response_cache_control ?p) must_revalidate" by code_simp
  have 3: "Option.bind (headers_cache_control ref_env ?rq) max_stale = Some None" by code_simp
  have 4: "Option.bind (headers_cache_control ref_env ?rq) cc_max_age = None" by code_simp
  have 5: "Option.bind (headers_cache_control ref_env ?rq) min_fresh = None" by code_simp
  have 6: "\<not> request_no_cache ref_env ?rq" by code_simp
  have 7: "vary_matches ref_env ?p ?rq" by code_simp
  have 8: "\<not> inbound_conditional_matches ref_env ?p ?rq" by code_simp
  have 9: "age ref_env ?p 86400000000000 = Some 86400000000000" by code_simp
  from no_cache_served_to_max_stale [OF 1 2 3 4 5 6 7 8 9] show ?thesis by blast
qed

text \<open>
  C30: the client's own \<open>If-None-Match\<close> is combined with the stored entity tag, and any 304
  is then taken for the stored response. A 304 that confirms the client's tag, not the
  stored one, therefore marks the stored body as fresh and gives it the client's tag.
\<close>

theorem foreign_304_accepted:
  assumes "headers_laws E" and "before_request E p rq now = Some (Stale rq' m)"
    and "\<not> forbids_weak_validators E p rq"
    and "headers_get_str E (response_headers p) (Known Etag) = Some stored_tag"
    and "headers_get_str E (copy_without_hop_by_hop_headers E rq) (Known IfNoneMatch) = Some client_tag"
    and "headers_get_values E hs (Known Etag) = Some [Utf8 client_tag]"
    and "after_response E p rq' 304 hs t = Some r"
  shows "headers_get_str E rq' (Known IfNoneMatch) = Some (client_tag @ '', '' @ stored_tag) \<and>
     (\<exists>q c. r = Refreshed q c \<and> response_status q = response_status p \<and>
        headers_get_str E (response_headers q) (Known Etag) = Some client_tag)"
proof
  show "headers_get_str E rq' (Known IfNoneMatch) = Some (client_tag @ '', '' @ stored_tag)"
  proof -
    have "headers_get_values E (copy_without_hop_by_hop_headers E rq) (Known IfNoneMatch) = Some [Utf8 client_tag]"
      using assms(5) unfolding headers_laws_simps(6) [OF assms(1)] as_str_case
      by (auto split: option.splits list.splits header_value.splits)
    then show ?thesis
      using assms(3,4) before_request_StaleD(2) [OF assms(2)]
      by (simp add: headers_laws_simps(6) [OF assms(1), of "revalidation_request_headers E p rq"]
          revalidation_if_none_match [OF assms(1)] if_none_match_lines_def)
  qed
  show "\<exists>q c. r = Refreshed q c \<and> response_status q = response_status p \<and>
        headers_get_str E (response_headers q) (Known Etag) = Some client_tag"
    using assms(6,7)
    by (auto simp: after_response_def Let_def headers_laws_simps(6) [OF assms(1)]
        get_values_merge [OF assms(1)] is_excluded_from_revalidation_update_def)
qed

theorem foreign_304_accepted_witness:
  "\<exists>rq' q c. after_response ref_env (ref_stale_policy ''v1'') rq' 304
       [(Known Etag, [Utf8 ''v2''])] 6000000000 = Some (Refreshed q c)
     \<and> headers_get_str ref_env (response_headers q) (Known Etag) = Some ''v2''"
proof -
  let ?p = "ref_stale_policy ''v1''" and ?rq = "[(Known IfNoneMatch, [Utf8 ''v2''])]"
  have s: "satisfies_without_revalidation ref_env ?p ?rq 5000000000 = Some False" by code_simp
  obtain rq' m where b: "before_request ref_env ?p ?rq 5000000000 = Some (Stale rq' m)"
    using before_request_StaleI [OF s] by blast
  obtain q c where a: "after_response ref_env ?p rq' 304 [(Known Etag, [Utf8 ''v2''])] 6000000000
        = Some (Refreshed q c)" using after_response_304 [of ref_env ?p rq' "[(Known Etag, [Utf8 ''v2''])]" 6000000000] by auto
  have 3: "\<not> forbids_weak_validators ref_env ?p ?rq" by code_simp
  have 4: "headers_get_str ref_env (response_headers ?p) (Known Etag) = Some ''v1''" by code_simp
  have 5: "headers_get_str ref_env (copy_without_hop_by_hop_headers ref_env ?rq) (Known IfNoneMatch)
      = Some ''v2''" by code_simp
  have 6: "headers_get_values ref_env [(Known Etag, [Utf8 ''v2''])] (Known Etag) = Some [Utf8 ''v2'']"
    by code_simp
  from foreign_304_accepted [OF ref_env_headers_laws b 3 4 5 6 a] a show ?thesis by blast
qed

text \<open>
  The fields \<open>Connection\<close> names are stripped only when it has a single line: with two
  or more lines they are served to the client.
\<close>

theorem connection_lines_not_combined:
  assumes "headers_laws E"
    and "headers_get_values E hs (Known Connection) = Some (l1 # l2 # ls)"
    and "n \<notin> set hop_by_hop_headers"
  shows "headers_get_values E (copy_without_hop_by_hop_headers E hs) n = headers_get_values E hs n"
  using assms(2,3)
  by (simp add: get_values_copy_without_hop [OF assms(1)] connection_names_def
      headers_laws_simps(6) [OF assms(1)])

theorem connection_lines_not_combined_witness:
  "headers_get_values ref_env (copy_without_hop_by_hop_headers ref_env
      [(Known Connection, [Utf8 ''close'', Utf8 ''x-hop'']), (UnknownName ''x-hop'', [Utf8 ''1''])])
      (UnknownName ''x-hop'') = Some [Utf8 ''1'']"
  using connection_lines_not_combined [OF ref_env_headers_laws,
      of "[(Known Connection, [Utf8 ''close'', Utf8 ''x-hop'']), (UnknownName ''x-hop'', [Utf8 ''1''])]"
        "Utf8 ''close''" "Utf8 ''x-hop''" "[]" "UnknownName ''x-hop''"]
  by (simp add: ref_env_def ref_get_values_def hop_by_hop_headers_def)

text \<open>
  The snapshot of the fields named by \<open>Vary\<close> reads a field that the request repeats on several
  lines as absent. Requests that repeat it with different values, or leave it out, therefore
  select the same stored response.
\<close>

lemma repeated_field_not_selected:
  assumes "headers_laws E" and "\<forall>n. n \<noteq> f \<longrightarrow> headers_get_values E rq n = headers_get_values E rq' n"
    and "\<forall>h \<in> {rq, rq'}. \<forall>v. headers_get_values E h f \<noteq> Some [v]"
    and "''*'' \<notin> fst ` set (build_vary_snapshot E rs rq)"
  shows "vary_matches E (policy_new E m rq st rs t opts) rq'"
proof -
  have same: "headers_get_str E rq n = headers_get_str E rq' n" for n
  proof (cases "n = f")
    case True
    have "headers_get_str E h f = None" if "h \<in> {rq, rq'}" for h
      using assms(3) that unfolding headers_laws_simps(6) [OF assms(1)]
      by (auto split: option.split list.split)
    then show ?thesis using True by simp
  qed (use assms(2) get_str_cong [OF assms(1)] in blast)
  have "vary_snapshot_matches E (map (\<lambda>n. (n, headers_get_str E rq (header_name_from E n))) ns) rq'"
    if "''*'' \<notin> set ns" for ns
    using that by (induction ns) (auto simp: same)
  from this [of "map fst (build_vary_snapshot E rs rq)"]
  have "vary_snapshot_matches E (map (\<lambda>(n, _). (n, headers_get_str E rq (header_name_from E n)))
      (build_vary_snapshot E rs rq)) rq'"
    using assms(4) by (simp add: split_def o_def)
  moreover have "map (\<lambda>(n, _). (n, headers_get_str E rq (header_name_from E n))) (build_vary_snapshot E rs rq)
      = build_vary_snapshot E rs rq"
    by (rule map_idI) (auto simp: build_vary_snapshot_def Let_def split: option.splits)
  ultimately show ?thesis by (simp only: vary_matches_def policy_new_sel)
qed

end
