(* ===== verification/Storability.thy ===== *)
theory Storability
  imports Policy
begin

section \<open>Storing responses in caches (\<open>src/storability.rs\<close>)\<close>

text \<open>
  \<open>CachePolicy::is_storable\<close>, the decision of RFC 9111 section 3. The lemmas give each
  reason for which a response must not be stored and the exact condition under which it may.
\<close>

definition STATUS_CODE_CACHEABLE_BY_DEFAULT :: "u16 list" where
  "STATUS_CODE_CACHEABLE_BY_DEFAULT =
     [200, 203, 204, 206, 300, 301, 308, 404, 405, 410, 414, 501]"

definition is_cacheable_by_default :: "status \<Rightarrow> bool" where
  "is_cacheable_by_default st = (st \<in> set STATUS_CODE_CACHEABLE_BY_DEFAULT)"

definition response_has_explicit_expiration ::
  "'h ext \<Rightarrow> cache_control option \<Rightarrow> 'h \<Rightarrow> cache_options \<Rightarrow> bool \<Rightarrow> bool" where
  "response_has_explicit_expiration E cc headers opts targeted =
     (if shared opts \<and> is_some_and cc (\<lambda>cc. s_maxage cc \<noteq> None) then True
      else if is_some_and cc (\<lambda>cc. cc_max_age cc \<noteq> None) then True
      else \<not> targeted \<and> headers_has_header E headers (Known Expires))"

definition is_storable ::
  "'h ext \<Rightarrow> http_method \<Rightarrow> 'h \<Rightarrow> status \<Rightarrow> 'h \<Rightarrow> cache_options \<Rightarrow> bool" where
  "is_storable E meth request_hs st response_hs opts =
     (let request_cc = headers_cache_control E request_hs;
          (response_cc, targeted) = effective_response_cache_control E response_hs opts;
          method_ok = (meth = Get \<or> meth = Head
             \<or> (meth = Post
                \<and> response_has_explicit_expiration E response_cc response_hs opts targeted))
      in if is_some_and request_cc is_no_store then False
         else if \<not> method_ok then False
         else if is_some_and response_cc is_no_store then False
         else if shared opts \<and> is_some_and response_cc is_private then False
         else if shared opts \<and> headers_has_header E request_hs (Known Authorization)
              \<and> \<not> is_some_and response_cc
                    (\<lambda>cc. must_revalidate cc \<or> is_public cc \<or> s_maxage cc \<noteq> None)
         then False
         else (\<not> targeted \<and> headers_has_header E response_hs (Known Expires))
              \<or> is_some_and response_cc
                  (\<lambda>cc. cc_max_age cc \<noteq> None \<or> is_public cc \<or> (shared opts \<and> s_maxage cc \<noteq> None))
              \<or> is_cacheable_by_default st)"

subsection \<open>What must not be stored\<close>

lemmas is_storable_simps = is_storable_def Let_def is_some_and_def

lemma not_storable_request_no_store:
  "is_some_and (headers_cache_control E rq) is_no_store \<Longrightarrow> \<not> is_storable E m rq st rs opts"
  by (auto simp: is_storable_def Let_def split: prod.splits)

lemma storable_effective:
  assumes "is_storable E m rq st rs opts"
    and "fst (effective_response_cache_control E rs opts) = Some cc"
  shows "\<not> is_no_store cc" and "shared opts \<Longrightarrow> \<not> is_private cc"
  using assms by (auto simp: is_storable_def Let_def split: prod.splits if_splits)

lemma storable_method:
  "is_storable E m rq st rs opts \<Longrightarrow> m = Get \<or> m = Head \<or> m = Post"
  by (auto simp: is_storable_def Let_def split: prod.splits if_splits)

lemma storable_authorization:
  assumes "is_storable E m rq st rs opts" and "shared opts"
    and "headers_has_header E rq (Known Authorization)"
  shows "\<exists>cc. fst (effective_response_cache_control E rs opts) = Some cc
           \<and> (must_revalidate cc \<or> is_public cc \<or> s_maxage cc \<noteq> None)"
  using assms
  by (auto simp: is_storable_def Let_def is_some_and_iff split: prod.splits if_splits)

lemma storable_by_status_or_directive:
  assumes "is_storable E m rq st rs opts" and "\<not> is_cacheable_by_default st"
    and "\<not> headers_has_header E rs (Known Expires)"
  shows "\<exists>cc. fst (effective_response_cache_control E rs opts) = Some cc
           \<and> (cc_max_age cc \<noteq> None \<or> is_public cc \<or> (shared opts \<and> s_maxage cc \<noteq> None))"
  using assms
  by (auto simp: is_storable_def Let_def is_some_and_iff split: prod.splits if_splits)

lemma storable_post:
  assumes "is_storable E Post rq st rs opts"
  shows "response_has_explicit_expiration E (fst (effective_response_cache_control E rs opts))
           rs opts (snd (effective_response_cache_control E rs opts))"
  using assms by (auto simp: is_storable_def Let_def split: prod.splits if_splits)

subsection \<open>Properties\<close>

text \<open>
  Whatever is judged storable, the request and the directives that govern the response allow
  to be stored. In a shared cache those are the directives of \<open>CDN-Cache-Control\<close> when it is
  usable, and then a \<open>no-store\<close> in \<open>Cache-Control\<close> does not count.
\<close>

theorem storable_safety:
  assumes "is_storable E m rq st rs opts"
  defines "cc \<equiv> fst (effective_response_cache_control E rs opts)"
  shows "m \<in> {Get, Head, Post} \<and>
     \<not> is_some_and (headers_cache_control E rq) is_no_store \<and>
     \<not> is_some_and cc is_no_store \<and>
     (shared opts \<longrightarrow> \<not> is_some_and cc is_private) \<and>
     (shared opts \<and> headers_has_header E rq (Known Authorization) \<longrightarrow>
        is_some_and cc (\<lambda>cc. must_revalidate cc \<or> is_public cc \<or> s_maxage cc \<noteq> None))"
  using storable_method [OF assms(1)] storable_effective [OF assms(1)]
    storable_authorization [OF assms(1)] not_storable_request_no_store [of E rq m st rs opts] assms(1)
  unfolding cc_def is_some_and_iff by blast

text \<open>
  A response whose status is not cacheable by default and which has no \<open>Expires\<close> is
  stored only with \<open>max-age\<close>, \<open>public\<close> or, in a shared cache, \<open>s-maxage\<close>; a \<open>POST\<close>
  response is stored only with explicit freshness information.
\<close>

theorem storable_needs_freshness:
  assumes "is_storable E m rq st rs opts"
  defines "cc \<equiv> fst (effective_response_cache_control E rs opts)"
  shows "(\<not> is_cacheable_by_default st \<and> \<not> headers_has_header E rs (Known Expires) \<longrightarrow>
      is_some_and cc (\<lambda>cc. cc_max_age cc \<noteq> None \<or> is_public cc \<or> (shared opts \<and> s_maxage cc \<noteq> None))) \<and>
     (m = Post \<longrightarrow>
      response_has_explicit_expiration E cc rs opts (snd (effective_response_cache_control E rs opts)))"
  using storable_by_status_or_directive [OF assms(1)] storable_post [of E rq st rs opts] assms(1)
  unfolding cc_def is_some_and_iff by blast

theorem storable_needs_freshness_witness:
  "is_some_and (fst (effective_response_cache_control ref_env
       [(Known CacheControl, [Utf8 ''max-age=5''])] cache_options_default))
     (\<lambda>cc. cc_max_age cc \<noteq> None \<or> is_public cc \<or> (shared cache_options_default \<and> s_maxage cc \<noteq> None))"
proof -
  have "is_storable ref_env Get [] 500 [(Known CacheControl, [Utf8 ''max-age=5''])] cache_options_default"
    by code_simp
  moreover have "\<not> is_cacheable_by_default 500" by code_simp
  moreover have "\<not> headers_has_header ref_env [(Known CacheControl, [Utf8 ''max-age=5''])] (Known Expires)"
    by code_simp
  ultimately show ?thesis
    using storable_needs_freshness
      [of ref_env Get "[]" 500 "[(Known CacheControl, [Utf8 ''max-age=5''])]" cache_options_default]
    by blast
qed

end
