(* ===== verification/Storage.thy ===== *)
theory Storage
  imports Policy "HOL-Library.Sublist"
begin

section \<open>The storage interface (\<open>src/storage.rs\<close>)\<close>

text \<open>
  Cache keys, and the traits \<open>CacheStorage\<close>, \<open>StoredEntry\<close> and \<open>PutHandle\<close> as records of
  operations over a storage state \<open>'s\<close>, entries \<open>'e\<close>, put handles \<open>'w\<close>, finalize futures
  \<open>'f\<close> and bodies \<open>'b\<close>. The handlers take such records as arguments; the backends provide
  them. What the trait documentation promises is the locale \<open>cache_storage\<close>: what is visible
  under a key after each operation, where a backend may drop entries at any time. The lemmas
  proved once for every backend: entries under a key have pairwise different \<open>Vary\<close>
  signatures, and every visible body was committed under that key and not invalidated since.
  The locale \<open>lossless_storage\<close> adds that nothing is dropped; the storage then refines the
  map of variant lists that the operations describe.
\<close>

record cache_key =
  key_method :: http_method
  key_url :: url

definition cache_key_new :: "http_method \<Rightarrow> url \<Rightarrow> cache_key" where
  "cache_key_new m u = \<lparr>key_method = m, key_url = u\<rparr>"

record ('h, 's, 'e, 'w, 'b) storage =
  storage_get :: "'s \<Rightarrow> cache_key \<Rightarrow> 'e list \<times> 's"
  storage_put :: "'s \<Rightarrow> cache_key \<Rightarrow> 'h cache_policy \<Rightarrow> 'w io_result \<times> 's"
  storage_invalidate :: "'s \<Rightarrow> cache_key \<Rightarrow> 's"
  entry_policy :: "'e \<Rightarrow> 'h cache_policy"
  entry_refresh_policy :: "'e \<Rightarrow> 'h cache_policy \<Rightarrow> 's \<Rightarrow> unit io_result \<times> 'e \<times> 's"
  entry_open :: "'e \<Rightarrow> 's \<Rightarrow> 'b io_result \<times> 's"

text \<open>
  \<open>finalize\<close> consumes the handle and gives a future; each poll of it may change the storage.
\<close>

record ('h, 's, 'w, 'f) put_handle =
  poll_write :: "'w \<Rightarrow> bytes \<Rightarrow> nat io_result poll \<times> 'w"
  finalize :: "'w \<Rightarrow> 'h option \<Rightarrow> 'f"
  poll_finalize :: "'f \<Rightarrow> 's \<Rightarrow> unit io_result poll \<times> 'f \<times> 's"

subsection \<open>What is stored under a key\<close>

text \<open>One stored response (\<open>Variant\<close> of \<open>src/memory.rs\<close>).\<close>

record 'h variant =
  v_policy :: "'h cache_policy"
  v_body :: bytes
  v_trailers :: "'h option"

text \<open>A commit replaces the entries of the same \<open>Vary\<close> signature and appends otherwise.\<close>

definition spec_commit :: "'h variant \<Rightarrow> 'h variant list \<Rightarrow> 'h variant list" where
  "spec_commit v vs = filter (\<lambda>u. \<not> same_variant_as (v_policy u) (v_policy v)) vs @ [v]"

text \<open>A refresh replaces the policy of the first entry of the same signature, not its body.\<close>

fun spec_refresh :: "'h cache_policy \<Rightarrow> 'h variant list \<Rightarrow> 'h variant list" where
  "spec_refresh q [] = []"
| "spec_refresh q (v # vs) =
     (if same_variant_as (v_policy v) q then v\<lparr>v_policy := q\<rparr> # vs
      else v # spec_refresh q vs)"

abbreviation signature :: "'h variant \<Rightarrow> (string \<times> string option) list" where
  "signature v \<equiv> vary_snapshot (v_policy v)"

definition distinct_variants :: "'h variant list \<Rightarrow> bool" where
  "distinct_variants vs = distinct (map signature vs)"

lemma spec_refresh_signatures [simp]: "map signature (spec_refresh q vs) = map signature vs"
  by (induction vs) (simp_all add: same_variant_as_def)

lemma spec_refresh_set:
  "u \<in> set (spec_refresh q vs) \<Longrightarrow>
     u \<in> set vs \<or> (\<exists>v \<in> set vs. same_variant_as (v_policy v) q \<and> u = v\<lparr>v_policy := q\<rparr>)"
  by (induction vs) (auto split: if_splits)

lemma spec_refresh_miss:
  "(\<And>v. v \<in> set vs \<Longrightarrow> \<not> same_variant_as (v_policy v) q) \<Longrightarrow> spec_refresh q vs = vs"
  by (induction vs) auto

text \<open>A refresh rewrites exactly the given variant when signatures are distinct.\<close>

lemma spec_refresh_of:
  assumes "distinct_variants vs" and "v \<in> set vs" and "same_variant_as (v_policy v) q"
  shows "spec_refresh q vs = map (\<lambda>u. if u = v then v\<lparr>v_policy := q\<rparr> else u) vs"
  using assms
proof (induction vs)
  case (Cons u vs)
  have tail: "map (\<lambda>u. if u = v then v\<lparr>v_policy := q\<rparr> else u) vs = vs" if "v \<notin> set vs"
    using that by (auto intro: map_idI)
  have same: "same_variant_as (v_policy u) q \<longleftrightarrow> signature u = signature v"
    using Cons.prems(3) by (simp add: same_variant_as_def)
  show ?case
  proof (cases "u = v")
    case True
    then have "v \<notin> set vs" using Cons.prems(1) by (auto simp: distinct_variants_def)
    then show ?thesis using True Cons.prems(3) tail by simp
  next
    case False
    then have "v \<in> set vs" using Cons.prems(2) by simp
    moreover from this have "signature u \<noteq> signature v" using Cons.prems(1) by (auto simp: distinct_variants_def)
    ultimately show ?thesis using False same Cons by (simp add: distinct_variants_def)
  qed
qed simp

lemma distinct_variants_commit [intro]:
  "distinct_variants vs \<Longrightarrow> distinct_variants (spec_commit v vs)"
  by (auto simp: distinct_variants_def spec_commit_def same_variant_as_def distinct_map_filter)

lemma distinct_variants_refresh [intro]:
  "distinct_variants vs \<Longrightarrow> distinct_variants (spec_refresh q vs)"
  by (simp add: distinct_variants_def)

lemma distinct_variants_subseq:
  "subseq us vs \<Longrightarrow> distinct_variants vs \<Longrightarrow> distinct_variants us"
  unfolding distinct_variants_def
  by (metis distinct_nthsI subseq_conv_nths subseq_map)

lemma set_subseq: "subseq xs ys \<Longrightarrow> x \<in> set xs \<Longrightarrow> x \<in> set ys"
  by (metis notin_set_nthsI subseq_conv_nths)

subsection \<open>Sequences of storage operations\<close>

datatype ('h, 'e, 'f) store_op =
    OpGet cache_key
  | OpPut cache_key "'h cache_policy"
  | OpInvalidate cache_key
  | OpRefresh 'e "'h cache_policy"
  | OpOpen 'e
  | OpPollFinalize 'f

fun apply_op ::
  "('h, 's, 'e, 'w, 'b) storage \<Rightarrow> ('h, 's, 'w, 'f) put_handle \<Rightarrow> ('h, 'e, 'f) store_op \<Rightarrow> 's \<Rightarrow> 's" where
  "apply_op S P (OpGet k) s = snd (storage_get S s k)"
| "apply_op S P (OpPut k p) s = snd (storage_put S s k p)"
| "apply_op S P (OpInvalidate k) s = storage_invalidate S s k"
| "apply_op S P (OpRefresh e q) s = snd (snd (entry_refresh_policy S e q s))"
| "apply_op S P (OpOpen e) s = snd (entry_open S e s)"
| "apply_op S P (OpPollFinalize f) s = snd (snd (poll_finalize P f s))"

text \<open>The variants a lookup of the key shows, where \<open>ev\<close> is the content of an entry.\<close>

definition visible ::
  "('h, 's, 'e, 'w, 'b) storage \<Rightarrow> ('e \<Rightarrow> 'h variant) \<Rightarrow> 's \<Rightarrow> cache_key \<Rightarrow> 'h variant list" where
  "visible S ev s k = map ev (fst (storage_get S s k))"

text \<open>
  The states an initially given storage reaches by operations, the latest one first in the
  list, interleaved with eviction and expiry, which only drop entries.
\<close>

inductive store_reach ::
  "('h, 's, 'e, 'w, 'b) storage \<Rightarrow> ('h, 's, 'w, 'f) put_handle \<Rightarrow> ('e \<Rightarrow> 'h variant) \<Rightarrow> 's \<Rightarrow>
   ('h, 'e, 'f) store_op list \<Rightarrow> 's \<Rightarrow> bool"
  for S P ev s0 where
  start: "store_reach S P ev s0 [] s0"
| step: "store_reach S P ev s0 ops s \<Longrightarrow> store_reach S P ev s0 (op # ops) (apply_op S P op s)"
| evict: "store_reach S P ev s0 ops s \<Longrightarrow> (\<And>k. subseq (visible S ev s' k) (visible S ev s k)) \<Longrightarrow>
    store_reach S P ev s0 ops s'"

inductive_cases store_reach_ConsE: "store_reach S P ev s0 (op # ops) s"

text \<open>
  Where a visible variant comes from: a commit of the same body and trailers under the key,
  with no invalidation of the key since, and a policy from that commit or a later refresh.
\<close>

definition committed ::
  "('e \<Rightarrow> cache_key) \<Rightarrow> ('f \<Rightarrow> cache_key) \<Rightarrow> ('f \<Rightarrow> 'h variant) \<Rightarrow>
   ('h, 'e, 'f) store_op list \<Rightarrow> cache_key \<Rightarrow> 'h variant \<Rightarrow> bool" where
  "committed ek fk fv ops k v \<longleftrightarrow>
     (\<exists>later f earlier. ops = later @ OpPollFinalize f # earlier \<and>
        fk f = k \<and> v_body v = v_body (fv f) \<and> v_trailers v = v_trailers (fv f) \<and>
        same_variant_as (v_policy v) (v_policy (fv f)) \<and>
        OpInvalidate k \<notin> set later \<and>
        (v_policy v = v_policy (fv f) \<or> (\<exists>e. ek e = k \<and> OpRefresh e (v_policy v) \<in> set later)))"

lemma committed_Cons:
  assumes "committed ek fk fv ops k v" and "op \<noteq> OpInvalidate k"
  shows "committed ek fk fv (op # ops) k v"
proof -
  from assms(1) obtain later f earlier where d:
    "ops = later @ OpPollFinalize f # earlier" "fk f = k" "v_body v = v_body (fv f)"
    "v_trailers v = v_trailers (fv f)" "same_variant_as (v_policy v) (v_policy (fv f))"
    "OpInvalidate k \<notin> set later"
    "v_policy v = v_policy (fv f) \<or> (\<exists>e. ek e = k \<and> OpRefresh e (v_policy v) \<in> set later)"
    unfolding committed_def by blast
  have "op # ops = (op # later) @ OpPollFinalize f # earlier" using d by simp
  moreover have "OpInvalidate k \<notin> set (op # later)" using d assms(2) by auto
  ultimately show ?thesis
    unfolding committed_def using d by (metis list.set_intros(2))
qed

lemma committed_commit: "fk f = k \<Longrightarrow> committed ek fk fv (OpPollFinalize f # ops) k (fv f)"
  unfolding committed_def by (rule exI [of _ "[]"]) auto

lemma committed_refresh:
  assumes "committed ek fk fv ops k v" and "ek e = k" and "same_variant_as (v_policy v) q"
  shows "committed ek fk fv (OpRefresh e q # ops) k (v\<lparr>v_policy := q\<rparr>)"
proof -
  from assms(1) obtain later f earlier where d:
    "ops = later @ OpPollFinalize f # earlier" "fk f = k" "v_body v = v_body (fv f)"
    "v_trailers v = v_trailers (fv f)" "same_variant_as (v_policy v) (v_policy (fv f))"
    "OpInvalidate k \<notin> set later"
    unfolding committed_def by blast
  have "OpRefresh e q # ops = (OpRefresh e q # later) @ OpPollFinalize f # earlier" using d by simp
  then show ?thesis
    unfolding committed_def using d assms(2,3)
    by (intro exI [of _ "OpRefresh e q # later"] exI [of _ f] exI [of _ earlier])
       (auto simp: same_variant_as_def)
qed

subsection \<open>The contract of a storage backend\<close>

text \<open>
  The parameter \<open>p\<close> stands for the third-party code a backend is built on and \<open>ok p\<close> for what
  that code documents.
\<close>

locale cache_storage =
  fixes ok :: "'p \<Rightarrow> bool"
    and S :: "'p \<Rightarrow> ('h, 's, 'e, 'w, 'b) storage"
    and P :: "'p \<Rightarrow> ('h, 's, 'w, 'f) put_handle"
    and ek :: "'e \<Rightarrow> cache_key" and ev :: "'e \<Rightarrow> 'h variant"
    and fk :: "'f \<Rightarrow> cache_key" and fv :: "'f \<Rightarrow> 'h variant"
  assumes entry_policy_law: "ok p \<Longrightarrow> entry_policy (S p) e = v_policy (ev e)"
    and get_keys: "ok p \<Longrightarrow> e \<in> set (fst (storage_get (S p) s k)) \<Longrightarrow> ek e = k"
    and get_law: "ok p \<Longrightarrow>
      subseq (visible (S p) ev (snd (storage_get (S p) s k)) k') (visible (S p) ev s k')"
    and put_law: "ok p \<Longrightarrow>
      subseq (visible (S p) ev (snd (storage_put (S p) s k pol)) k') (visible (S p) ev s k')"
    and open_law: "ok p \<Longrightarrow>
      subseq (visible (S p) ev (snd (entry_open (S p) e s)) k') (visible (S p) ev s k')"
    and invalidate_law: "ok p \<Longrightarrow>
      subseq (visible (S p) ev (storage_invalidate (S p) s k) k')
        (if k' = k then [] else visible (S p) ev s k')"
    and refresh_law: "ok p \<Longrightarrow> entry_refresh_policy (S p) e q s = (r, e', s') \<Longrightarrow>
      ek e' = ek e \<and> v_body (ev e') = v_body (ev e) \<and> v_trailers (ev e') = v_trailers (ev e) \<and>
      (r = Inr () \<longrightarrow> v_policy (ev e') = q) \<and>
      subseq (visible (S p) ev s' k)
        (if k = ek e then spec_refresh q (visible (S p) ev s k) else visible (S p) ev s k)"
    and finalize_law: "ok p \<Longrightarrow> poll_finalize (P p) f s = (Ready r, f', s') \<Longrightarrow>
      subseq (visible (S p) ev s' k)
        (if k = fk f then spec_commit (fv f) (visible (S p) ev s k) else visible (S p) ev s k)
      \<or> r \<noteq> Inr () \<and> subseq (visible (S p) ev s' k) (visible (S p) ev s k)"
    and finalize_pending: "ok p \<Longrightarrow> poll_finalize (P p) f s = (Pending, f', s') \<Longrightarrow>
      subseq (visible (S p) ev s' k) (visible (S p) ev s k)"
begin

lemma apply_op_distinct:
  assumes "ok p" and "distinct_variants (visible (S p) ev s k)"
  shows "distinct_variants (visible (S p) ev (apply_op (S p) (P p) op s) k)"
proof (cases op)
  case (OpGet k')
  then show ?thesis using assms get_law distinct_variants_subseq by fastforce
next
  case (OpPut k' q)
  then show ?thesis using assms put_law distinct_variants_subseq by fastforce
next
  case (OpInvalidate k')
  then show ?thesis
    using assms distinct_variants_subseq [OF invalidate_law [OF assms(1), of s k' k]]
    by (auto simp: distinct_variants_def split: if_splits)
next
  case (OpRefresh e q)
  obtain r e' s' where r: "entry_refresh_policy (S p) e q s = (r, e', s')" by (metis prod_cases3)
  then show ?thesis
    using OpRefresh assms refresh_law [OF assms(1) r, of k]
    by (auto split: if_splits intro: distinct_variants_subseq)
next
  case (OpOpen e)
  then show ?thesis using assms open_law distinct_variants_subseq by fastforce
next
  case (OpPollFinalize f)
  obtain x f' s' where r: "poll_finalize (P p) f s = (x, f', s')" by (metis prod_cases3)
  then show ?thesis
    using OpPollFinalize assms finalize_law [OF assms(1), of f s _ f' s' k]
      finalize_pending [OF assms(1), of f s f' s' k]
    by (cases x) (auto split: if_splits intro: distinct_variants_subseq)
qed

text \<open>The variants an operation leaves are old ones, a committed one, or refreshed ones.\<close>

lemma apply_op_new:
  assumes "ok p" and v: "v \<in> set (visible (S p) ev (apply_op (S p) (P p) op s) k)"
  obtains "v \<in> set (visible (S p) ev s k)" "op \<noteq> OpInvalidate k"
  | f where "op = OpPollFinalize f" "fk f = k" "v = fv f"
  | e q u where "op = OpRefresh e q" "ek e = k" "u \<in> set (visible (S p) ev s k)"
      "same_variant_as (v_policy u) q" "v = u\<lparr>v_policy := q\<rparr>"
proof (cases op)
  case (OpGet k')
  then show ?thesis using that(1) v set_subseq [OF get_law [OF assms(1)]] by auto
next
  case (OpPut k' q)
  then show ?thesis using that(1) v set_subseq [OF put_law [OF assms(1)]] by auto
next
  case (OpInvalidate k')
  have "v \<in> set (visible (S p) ev (storage_invalidate (S p) s k') k)" using v OpInvalidate by simp
  from set_subseq [OF invalidate_law [OF assms(1)] this] show ?thesis
    using that(1) OpInvalidate by (auto split: if_splits)
next
  case (OpRefresh e q)
  obtain r e' s' where r: "entry_refresh_policy (S p) e q s = (r, e', s')" by (metis prod_cases3)
  then have sub: "subseq (visible (S p) ev s' k)
      (if k = ek e then spec_refresh q (visible (S p) ev s k) else visible (S p) ev s k)"
    using refresh_law [OF assms(1) r] by blast
  have "v \<in> set (visible (S p) ev s' k)" using v OpRefresh r by simp
  from set_subseq [OF sub this]
  have "v \<in> set (visible (S p) ev s k) \<or> k = ek e \<and>
      (\<exists>u \<in> set (visible (S p) ev s k). same_variant_as (v_policy u) q \<and> v = u\<lparr>v_policy := q\<rparr>)"
    using spec_refresh_set by (fastforce split: if_splits)
  then show ?thesis using that(1,3) OpRefresh by blast
next
  case (OpOpen e)
  then show ?thesis using that(1) v set_subseq [OF open_law [OF assms(1)]] by auto
next
  case (OpPollFinalize f)
  obtain x f' s' where r: "poll_finalize (P p) f s = (x, f', s')" by (metis prod_cases3)
  have v': "v \<in> set (visible (S p) ev s' k)" using v OpPollFinalize r by simp
  have "v \<in> set (if k = fk f then spec_commit (fv f) (visible (S p) ev s k) else visible (S p) ev s k) \<or>
      v \<in> set (visible (S p) ev s k)"
  proof (cases x)
    case Pending
    then show ?thesis using finalize_pending [OF assms(1) r [unfolded Pending], of k] set_subseq [OF _ v'] by blast
  next
    case (Ready y)
    then show ?thesis using finalize_law [OF assms(1) r [unfolded Ready], of k] set_subseq [OF _ v'] by blast
  qed
  then have "v \<in> set (visible (S p) ev s k) \<or> fk f = k \<and> v = fv f"
    by (auto simp: spec_commit_def split: if_splits)
  then show ?thesis using that(1,2) OpPollFinalize by blast
qed

lemma apply_op_origin:
  assumes "ok p" and "\<And>v. v \<in> set (visible (S p) ev s k) \<Longrightarrow> committed ek fk fv ops k v"
    and v: "v \<in> set (visible (S p) ev (apply_op (S p) (P p) op s) k)"
  shows "committed ek fk fv (op # ops) k v"
  using assms(1) v
proof (cases rule: apply_op_new)
  case 1
  then show ?thesis using committed_Cons assms(2) by blast
next
  case (2 f)
  then show ?thesis using committed_commit by simp
next
  case (3 e q u)
  then show ?thesis using committed_refresh [OF assms(2)] by simp
qed

lemma reach_distinct:
  assumes "store_reach (S p) (P p) ev s0 ops s" and "ok p"
    and "\<And>k. distinct_variants (visible (S p) ev s0 k)"
  shows "distinct_variants (visible (S p) ev s k)"
  using assms(1)
proof (induction arbitrary: k rule: store_reach.induct)
  case start
  then show ?case using assms(3) .
next
  case (step ops s op)
  then show ?case using apply_op_distinct [OF assms(2)] by blast
next
  case (evict ops s s')
  show ?case using distinct_variants_subseq [OF evict.hyps(2) evict.IH] .
qed

lemma reach_origin:
  assumes "store_reach (S p) (P p) ev s0 ops s" and "ok p"
    and "\<And>k. visible (S p) ev s0 k = []"
    and "v \<in> set (visible (S p) ev s k)"
  shows "committed ek fk fv ops k v"
  using assms(1,4)
proof (induction arbitrary: k v rule: store_reach.induct)
  case start
  then show ?case using assms(3) by simp
next
  case (step ops s op)
  show ?case using apply_op_origin [OF assms(2) step.IH step.prems] .
next
  case (evict ops s s')
  show ?case using evict.IH [OF set_subseq [OF evict.hyps(2) evict.prems]] .
qed

end

subsection \<open>Backends that drop nothing\<close>

text \<open>The specified effect of an operation on the variants under one key.\<close>

fun op_effect ::
  "('e \<Rightarrow> cache_key) \<Rightarrow> ('f \<Rightarrow> cache_key) \<Rightarrow> ('f \<Rightarrow> 'h variant) \<Rightarrow>
   ('h, 'e, 'f) store_op \<Rightarrow> cache_key \<Rightarrow> 'h variant list \<Rightarrow> 'h variant list" where
  "op_effect ek fk fv (OpInvalidate k') k vs = (if k = k' then [] else vs)"
| "op_effect ek fk fv (OpRefresh e q) k vs = (if k = ek e then spec_refresh q vs else vs)"
| "op_effect ek fk fv (OpPollFinalize f) k vs = (if k = fk f then spec_commit (fv f) vs else vs)"
| "op_effect ek fk fv (OpGet k') k vs = vs"
| "op_effect ek fk fv (OpPut k' q) k vs = vs"
| "op_effect ek fk fv (OpOpen e) k vs = vs"

locale lossless_storage = cache_storage ok S P ek ev fk fv
  for ok :: "'p \<Rightarrow> bool"
    and S :: "'p \<Rightarrow> ('h, 's, 'e, 'w, 'b) storage"
    and P :: "'p \<Rightarrow> ('h, 's, 'w, 'f) put_handle"
    and ek :: "'e \<Rightarrow> cache_key" and ev :: "'e \<Rightarrow> 'h variant"
    and fk :: "'f \<Rightarrow> cache_key" and fv :: "'f \<Rightarrow> 'h variant" +
  fixes keeps :: "'p \<Rightarrow> 's \<Rightarrow> bool"
  assumes keeps_law: "ok p \<Longrightarrow> keeps p s \<Longrightarrow> keeps p (apply_op (S p) (P p) op s)"
    and exact_law: "ok p \<Longrightarrow> keeps p s \<Longrightarrow>
      visible (S p) ev (apply_op (S p) (P p) op s) k = op_effect ek fk fv op k (visible (S p) ev s k)"
begin

lemma refines_spec:
  assumes "ok p" and "keeps p s"
  shows "keeps p (foldl (\<lambda>s op. apply_op (S p) (P p) op s) s ops) \<and>
     visible (S p) ev (foldl (\<lambda>s op. apply_op (S p) (P p) op s) s ops) k
       = foldl (\<lambda>vs op. op_effect ek fk fv op k vs) (visible (S p) ev s k) ops"
  using assms(2)
  by (induction ops arbitrary: s) (simp_all add: keeps_law [OF assms(1)] exact_law [OF assms(1)])

end

subsection \<open>The contract of a put handle\<close>

text \<open>
  A write accepts a prefix of what it is given or accepts nothing; finalizing commits exactly
  the accepted bytes under the key and policy the handle was opened with, where the key is
  whatever the handle keeps of it.
\<close>

locale put_writer =
  fixes ok :: "'p \<Rightarrow> bool"
    and P :: "'p \<Rightarrow> ('h, 's, 'w, 'f) put_handle"
    and content :: "'w \<Rightarrow> bytes" and wk :: "'w \<Rightarrow> 'k" and wp :: "'w \<Rightarrow> 'h cache_policy"
    and fk :: "'f \<Rightarrow> 'k" and fv :: "'f \<Rightarrow> 'h variant"
  assumes write_keeps: "ok p \<Longrightarrow> poll_write (P p) w buf = (r, w') \<Longrightarrow> wk w' = wk w \<and> wp w' = wp w"
    and write_pending: "ok p \<Longrightarrow> poll_write (P p) w buf = (Pending, w') \<Longrightarrow> content w' = content w"
    and write_ok: "ok p \<Longrightarrow> poll_write (P p) w buf = (Ready (Inr n), w') \<Longrightarrow>
      n \<le> length buf \<and> content w' = content w @ take n buf"
    and finalize_key: "ok p \<Longrightarrow> fk (finalize (P p) w t) = wk w"
    and finalize_content: "ok p \<Longrightarrow>
      fv (finalize (P p) w t) = \<lparr>v_policy = wp w, v_body = content w, v_trailers = t\<rparr>"
    and finalize_stays: "ok p \<Longrightarrow> poll_finalize (P p) f s = (Pending, f', s') \<Longrightarrow>
      fk f' = fk f \<and> fv f' = fv f"

text \<open>A storage whose \<open>put\<close> opens an empty handle for the key and policy it is given.\<close>

locale streaming_storage =
  cache_storage ok S P ek ev fk fv + put_writer ok P content wk wp fk fv
  for ok :: "'p \<Rightarrow> bool"
    and S :: "'p \<Rightarrow> ('h, 's, 'e, 'w, 'b) storage"
    and P :: "'p \<Rightarrow> ('h, 's, 'w, 'f) put_handle"
    and ek :: "'e \<Rightarrow> cache_key" and ev :: "'e \<Rightarrow> 'h variant"
    and content :: "'w \<Rightarrow> bytes" and wk :: "'w \<Rightarrow> cache_key" and wp :: "'w \<Rightarrow> 'h cache_policy"
    and fk :: "'f \<Rightarrow> cache_key" and fv :: "'f \<Rightarrow> 'h variant" +
  assumes put_opens: "ok p \<Longrightarrow> storage_put (S p) s k q = (Inr w, s') \<Longrightarrow>
      content w = [] \<and> wk w = k \<and> wp w = q"

text \<open>The contracts under a change of parameters.\<close>

lemma cache_storage_reindex:
  assumes "cache_storage ok S P ek ev fk fv" and "\<And>p. ok' p \<Longrightarrow> ok (g p)"
  shows "cache_storage ok' (\<lambda>p. S (g p)) (\<lambda>p. P (g p)) ek ev fk fv"
proof -
  note laws = cache_storage.entry_policy_law cache_storage.get_keys cache_storage.get_law
    cache_storage.put_law cache_storage.open_law cache_storage.invalidate_law
    cache_storage.refresh_law cache_storage.finalize_law cache_storage.finalize_pending
  show ?thesis by (unfold_locales; drule assms(2); erule laws [OF assms(1)]; assumption?)
qed

lemma put_writer_reindex:
  assumes "put_writer ok P content wk wp fk fv" and "\<And>p. ok' p \<Longrightarrow> ok (g p)"
  shows "put_writer ok' (\<lambda>p. P (g p)) content wk wp fk fv"
proof -
  note laws = put_writer.write_keeps put_writer.write_pending put_writer.write_ok
    put_writer.finalize_key put_writer.finalize_content put_writer.finalize_stays
  show ?thesis by (unfold_locales; drule assms(2); erule laws [OF assms(1)]; assumption?)
qed

lemma streaming_storage_reindex:
  assumes "streaming_storage ok S P ek ev content wk wp fk fv" and "\<And>p. ok' p \<Longrightarrow> ok (g p)"
  shows "streaming_storage ok' (\<lambda>p. S (g p)) (\<lambda>p. P (g p)) ek ev content wk wp fk fv"
proof (intro streaming_storage.intro streaming_storage_axioms.intro)
  note parts = assms(1) [unfolded streaming_storage_def]
  show "cache_storage ok' (\<lambda>p. S (g p)) (\<lambda>p. P (g p)) ek ev fk fv"
    using parts by (intro cache_storage_reindex [of ok _ _ _ _ _ _ ok' g] assms(2)) blast+
  show "put_writer ok' (\<lambda>p. P (g p)) content wk wp fk fv"
    using parts by (intro put_writer_reindex [of ok _ _ _ _ _ _ ok' g] assms(2)) blast+
  show "content w = [] \<and> wk w = k \<and> wp w = q"
    if "ok' p" "storage_put (S (g p)) s k q = (Inr w, s')" for p s k q w s'
    using streaming_storage.put_opens [OF assms(1) assms(2) [OF that(1)] that(2)] .
qed

subsection \<open>Readers\<close>

text \<open>
  A reader over the bytes \<open>remaining\<close>: a read gives a prefix of them, no longer than the
  buffer, and the empty prefix for a non-empty buffer only at the end; a read that is pending
  or fails gives none.
\<close>

locale byte_source =
  fixes read_into :: "'u \<Rightarrow> nat \<Rightarrow> bytes io_result poll \<times> 'u" and remaining :: "'u \<Rightarrow> bytes"
  assumes read_ok: "read_into u n = (Ready (Inr bs), u') \<Longrightarrow>
      remaining u = bs @ remaining u' \<and> length bs \<le> n \<and> (0 < n \<longrightarrow> bs = [] \<longrightarrow> remaining u = [])"
    and read_pending: "read_into u n = (Pending, u') \<Longrightarrow> remaining u' = remaining u"
    and read_error: "read_into u n = (Ready (Inl e), u') \<Longrightarrow> remaining u' = remaining u"

end
