(* ===== verification/Tee.thy ===== *)
theory Tee
  imports Storage
begin

section \<open>The teeing reader (\<open>src/tee.rs\<close>)\<close>

text \<open>
  \<open>TeeingReader\<close> passes an upstream body through to its reader and writes the same bytes into
  a put handle. The upstream is a \<open>Body\<close> of \<open>trillium_http\<close>, a parameter. One call of
  \<open>poll_read\<close> is one function on the reader's state and the storage; it is \<open>None\<close> where the
  code panics. The lemmas hold for every put handle that keeps the contract \<open>put_writer\<close> and
  every upstream that is a \<open>byte_source\<close>: the caller reads the upstream bytes unchanged
  whatever the writer does, and the storage receives the whole body or nothing, never more
  than \<open>cap\<close> bytes.
\<close>

record ('h, 'u) body_ops =
  body_poll_read :: "'u \<Rightarrow> nat \<Rightarrow> bytes io_result poll \<times> 'u"
  body_trailers :: "'u \<Rightarrow> 'h option \<times> 'u"

datatype ('w, 'f) tee_state = Active 'w | Aborted | Finalizing 'f | Done

record ('h, 'u, 'w, 'f) teeing_reader =
  tee_upstream :: 'u
  tee_state :: "('w, 'f) tee_state"
  tee_cap :: u64
  tee_bytes_written :: u64
  tee_pending :: bytes
  tee_trailers :: "'h option"

definition tee_new :: "'u \<Rightarrow> 'w \<Rightarrow> u64 \<Rightarrow> ('h, 'u, 'w, 'f) teeing_reader" where
  "tee_new upstream writer cap =
     \<lparr>tee_upstream = upstream, tee_state = Active writer, tee_cap = cap,
      tee_bytes_written = 0, tee_pending = [], tee_trailers = None\<rparr>"

definition tee_abort :: "('h, 'u, 'w, 'f) teeing_reader \<Rightarrow> ('h, 'u, 'w, 'f) teeing_reader" where
  "tee_abort t = t\<lparr>tee_state := Aborted, tee_pending := []\<rparr>"

text \<open>Polling an in-flight finalize; its result is only logged.\<close>

definition drive_finalize ::
  "('h, 's, 'w, 'f) put_handle \<Rightarrow> ('h, 'u, 'w, 'f) teeing_reader \<Rightarrow> 's \<Rightarrow>
   unit poll \<times> ('h, 'u, 'w, 'f) teeing_reader \<times> 's" where
  "drive_finalize P t s =
     (case tee_state t of
        Finalizing fut \<Rightarrow>
          (case poll_finalize P fut s of
             (Pending, fut', s') \<Rightarrow> (Pending, t\<lparr>tee_state := Finalizing fut'\<rparr>, s')
           | (Ready result, fut', s') \<Rightarrow> (Ready (), t\<lparr>tee_state := Done\<rparr>, s'))
      | _ \<Rightarrow> (Ready (), t, s))"

text \<open>
  The loop that writes the pending bytes. \<open>Pending\<close> is the early return of the caller; a
  writer that reports more bytes than it was given makes \<open>drain\<close> panic.
\<close>

function drain_pending ::
  "('h, 's, 'w, 'f) put_handle \<Rightarrow> ('h, 'u, 'w, 'f) teeing_reader \<Rightarrow>
   (unit poll \<times> ('h, 'u, 'w, 'f) teeing_reader) option" where
  "drain_pending P t =
     (if tee_pending t = [] then Some (Ready (), t)
      else case tee_state t of
             Active writer \<Rightarrow>
               (case poll_write P writer (tee_pending t) of
                  (Pending, writer') \<Rightarrow> Some (Pending, t\<lparr>tee_state := Active writer'\<rparr>)
                | (Ready (Inl e), writer') \<Rightarrow> drain_pending P (tee_abort t)
                | (Ready (Inr n), writer') \<Rightarrow>
                    if n = 0 then drain_pending P (tee_abort t)
                    else if length (tee_pending t) < n then None
                    else drain_pending P
                           (t\<lparr>tee_state := Active writer', tee_pending := drop n (tee_pending t)\<rparr>))
           | _ \<Rightarrow> Some (Ready (), t\<lparr>tee_pending := []\<rparr>))"
  by pat_completeness auto
termination
  by (relation "measure (\<lambda>(P, t). length (tee_pending t))") (auto simp: tee_abort_def)

declare drain_pending.simps [simp del]

text \<open>Upstream end of file: take the trailers, start the finalize and poll it once.\<close>

definition tee_eof ::
  "('h, 'u) body_ops \<Rightarrow> ('h, 's, 'w, 'f) put_handle \<Rightarrow> ('h, 'u, 'w, 'f) teeing_reader \<Rightarrow> 's \<Rightarrow>
   bytes io_result poll \<times> ('h, 'u, 'w, 'f) teeing_reader \<times> 's" where
  "tee_eof B P t s =
     (case tee_state t of
        Active writer \<Rightarrow>
          (let (tr, u) = body_trailers B (tee_upstream t);
               t = t\<lparr>tee_upstream := u, tee_trailers := tr,
                     tee_state := Finalizing (finalize P writer tr)\<rparr>
           in case drive_finalize P t s of
                (Pending, t, s) \<Rightarrow> (Pending, t, s)
              | (Ready _, t, s) \<Rightarrow> (Ready (Inr []), t, s))
      | _ \<Rightarrow> (Ready (Inr []), t, s))"

text \<open>A chunk \<open>bs\<close> for the caller: write it, if the reader is still active.\<close>

definition tee_chunk ::
  "('h, 's, 'w, 'f) put_handle \<Rightarrow> ('h, 'u, 'w, 'f) teeing_reader \<Rightarrow> nat \<Rightarrow> bytes \<Rightarrow>
   ('h, 'u, 'w, 'f) teeing_reader option" where
  "tee_chunk P t buf_len bs =
     (case tee_state t of
        Active writer \<Rightarrow>
          (let n = length bs
           in if tee_cap t < u64_saturating_add (tee_bytes_written t) (word_of_nat n)
              then Some (tee_abort t)
              else if buf_len < n then None
              else case poll_write P writer bs of
                     (Ready (Inl e), writer') \<Rightarrow> Some (tee_abort t)
                   | (Ready (Inr written), writer') \<Rightarrow>
                       if written = 0 then Some (tee_abort t)
                       else do {
                         total \<leftarrow> u64_checked_add (tee_bytes_written t) (word_of_nat n);
                         Some (t\<lparr>tee_state := Active writer', tee_bytes_written := total,
                                 tee_pending := (if written < n then tee_pending t @ drop written bs
                                                 else tee_pending t)\<rparr>) }
                   | (Pending, writer') \<Rightarrow>
                       do {
                         total \<leftarrow> u64_checked_add (tee_bytes_written t) (word_of_nat n);
                         Some (t\<lparr>tee_state := Active writer', tee_bytes_written := total,
                                 tee_pending := tee_pending t @ bs\<rparr>) })
      | _ \<Rightarrow> Some t)"

definition is_done :: "('h, 'u, 'w, 'f) teeing_reader \<Rightarrow> bool" where
  "is_done t = (case tee_state t of Done \<Rightarrow> True | _ \<Rightarrow> False)"

definition tee_poll_read ::
  "('h, 'u) body_ops \<Rightarrow> ('h, 's, 'w, 'f) put_handle \<Rightarrow> ('h, 'u, 'w, 'f) teeing_reader \<Rightarrow> nat \<Rightarrow> 's \<Rightarrow>
   (bytes io_result poll \<times> ('h, 'u, 'w, 'f) teeing_reader \<times> 's) option" where
  "tee_poll_read B P t buf_len s =
     (case drive_finalize P t s of
        (Pending, t, s) \<Rightarrow> Some (Pending, t, s)
      | (Ready _, t, s) \<Rightarrow>
          if is_done t then Some (Ready (Inr []), t, s)
          else case drain_pending P t of
                 None \<Rightarrow> None
               | Some (Pending, t) \<Rightarrow> Some (Pending, t, s)
               | Some (Ready _, t) \<Rightarrow>
                   (case body_poll_read B (tee_upstream t) buf_len of
                      (Pending, u) \<Rightarrow> Some (Pending, t\<lparr>tee_upstream := u\<rparr>, s)
                    | (Ready (Inl e), u) \<Rightarrow> Some (Ready (Inl e), t\<lparr>tee_upstream := u\<rparr>, s)
                    | (Ready (Inr bs), u) \<Rightarrow>
                        if bs = [] then Some (tee_eof B P (t\<lparr>tee_upstream := u\<rparr>) s)
                        else do {
                          t \<leftarrow> tee_chunk P (t\<lparr>tee_upstream := u\<rparr>) buf_len bs;
                          Some (Ready (Inr bs), t, s) }))"

definition tee_take_trailers ::
  "('h, 'u, 'w, 'f) teeing_reader \<Rightarrow> 'h option \<times> ('h, 'u, 'w, 'f) teeing_reader" where
  "tee_take_trailers t = (tee_trailers t, t\<lparr>tee_trailers := None\<rparr>)"

subsection \<open>Reading through the tee\<close>

text \<open>
  The bytes delivered so far and the reader's state, after polls with non-empty buffers and
  calls of \<open>trailers\<close>. Each poll meets whatever storage the other tasks have left.
\<close>

definition delivered :: "bytes io_result poll \<Rightarrow> bytes" where
  "delivered r = (case r of Ready (Inr bs) \<Rightarrow> bs | _ \<Rightarrow> [])"

inductive tee_reach ::
  "('h, 'u) body_ops \<Rightarrow> ('h, 's, 'w, 'f) put_handle \<Rightarrow> ('h, 'u, 'w, 'f) teeing_reader \<Rightarrow>
   bytes \<Rightarrow> ('h, 'u, 'w, 'f) teeing_reader \<Rightarrow> bool"
  for B P t0 where
  start: "tee_reach B P t0 [] t0"
| poll: "tee_reach B P t0 d t \<Longrightarrow> tee_poll_read B P t n s = Some (r, t', s') \<Longrightarrow>
    0 < n \<Longrightarrow> n < 2 ^ 64 \<Longrightarrow> tee_reach B P t0 (d @ delivered r) t'"
| take: "tee_reach B P t0 d t \<Longrightarrow> tee_reach B P t0 d (snd (tee_take_trailers t))"

text \<open>
  The invariant: delivered and remaining bytes make up the source; an active reader has
  written or holds exactly the delivered bytes; a finalize is in flight for exactly them, and
  only at the end of the source.
\<close>

record ('h, 'k, 'w, 'f, 'u) tee_view =
  vw_content :: "'w \<Rightarrow> bytes"
  vw_key :: "'w \<Rightarrow> 'k"
  vw_policy :: "'w \<Rightarrow> 'h cache_policy"
  vf_key :: "'f \<Rightarrow> 'k"
  vf_variant :: "'f \<Rightarrow> 'h variant"
  vu_remaining :: "'u \<Rightarrow> bytes"

definition commits ::
  "('h, 'k, 'w, 'f, 'u) tee_view \<Rightarrow> 'k \<Rightarrow> 'h cache_policy \<Rightarrow> bytes \<Rightarrow> 'f \<Rightarrow> bool" where
  "commits V k pol d f \<longleftrightarrow> vf_key V f = k \<and> v_policy (vf_variant V f) = pol \<and> v_body (vf_variant V f) = d"

definition tee_inv ::
  "('h, 'k, 'w, 'f, 'u) tee_view \<Rightarrow> 'k \<Rightarrow> 'h cache_policy \<Rightarrow> u64 \<Rightarrow> bytes \<Rightarrow> bytes \<Rightarrow>
   ('h, 'u, 'w, 'f) teeing_reader \<Rightarrow> bool" where
  "tee_inv V k pol cap src d t \<longleftrightarrow>
     d @ vu_remaining V (tee_upstream t) = src \<and> tee_cap t = cap \<and>
     (case tee_state t of
        Active w \<Rightarrow> vw_key V w = k \<and> vw_policy V w = pol \<and> vw_content V w @ tee_pending t = d \<and>
          length d = unat (tee_bytes_written t) \<and> tee_bytes_written t \<le> cap
      | Finalizing f \<Rightarrow> commits V k pol d f \<and> tee_pending t = [] \<and> d = src \<and> length d \<le> unat cap
      | Aborted \<Rightarrow> tee_pending t = []
      | Done \<Rightarrow> tee_pending t = [] \<and> d = src)"

lemma tee_inv_source: "tee_inv V k pol cap src d t \<Longrightarrow> src = d @ vu_remaining V (tee_upstream t)"
  by (simp add: tee_inv_def)

lemma tee_inv_abort: "tee_inv V k pol cap src d t \<Longrightarrow> tee_inv V k pol cap src d (tee_abort t)"
  by (simp add: tee_inv_def tee_abort_def)

lemma tee_inv_upstream:
  "tee_inv V k pol cap src d t \<Longrightarrow> vu_remaining V u = vu_remaining V (tee_upstream t) \<Longrightarrow>
   tee_inv V k pol cap src d (t\<lparr>tee_upstream := u\<rparr>)"
  by (simp add: tee_inv_def cong: tee_state.case_cong)

lemma drain_abort [simp]: "drain_pending P (tee_abort t) = Some (Ready (), tee_abort t)"
  by (subst drain_pending.simps) (simp add: tee_abort_def)

lemma drain_Nil: "tee_pending t = [] \<Longrightarrow> drain_pending P t = Some (Ready (), t)"
  by (subst drain_pending.simps) simp

text \<open>The ways one round of the loop ends or goes on.\<close>

lemma drain_induct [case_names empty inactive pending error panic accept]:
  assumes "\<And>t. tee_pending t = [] \<Longrightarrow> Q t (Some (Ready (), t))"
    and "\<And>t. tee_pending t \<noteq> [] \<Longrightarrow> (\<And>w. tee_state t \<noteq> Active w) \<Longrightarrow> Q t (Some (Ready (), t\<lparr>tee_pending := []\<rparr>))"
    and "\<And>t w w'. tee_state t = Active w \<Longrightarrow> poll_write P w (tee_pending t) = (Pending, w') \<Longrightarrow>
      Q t (Some (Pending, t\<lparr>tee_state := Active w'\<rparr>))"
    and "\<And>t w. tee_state t = Active w \<Longrightarrow> Q t (Some (Ready (), tee_abort t))"
    and "\<And>t w n w'. tee_state t = Active w \<Longrightarrow> poll_write P w (tee_pending t) = (Ready (Inr n), w') \<Longrightarrow>
      length (tee_pending t) < n \<Longrightarrow> Q t None"
    and "\<And>t w n w'. tee_state t = Active w \<Longrightarrow> poll_write P w (tee_pending t) = (Ready (Inr n), w') \<Longrightarrow>
      0 < n \<Longrightarrow> n \<le> length (tee_pending t) \<Longrightarrow>
      Q (t\<lparr>tee_state := Active w', tee_pending := drop n (tee_pending t)\<rparr>)
        (drain_pending P (t\<lparr>tee_state := Active w', tee_pending := drop n (tee_pending t)\<rparr>)) \<Longrightarrow>
      Q t (drain_pending P (t\<lparr>tee_state := Active w', tee_pending := drop n (tee_pending t)\<rparr>))"
  shows "Q t (drain_pending P t)"
proof (induction "length (tee_pending t)" arbitrary: t rule: less_induct)
  case less
  show ?case
  proof (cases "tee_pending t = [] \<or> (\<forall>w. tee_state t \<noteq> Active w)")
    case True
    then show ?thesis
      using assms(1,2) by (subst drain_pending.simps) (auto split: tee_state.split)
  next
    case False
    then obtain w where w: "tee_state t = Active w" and ne: "tee_pending t \<noteq> []" by blast
    obtain r w' where r: "poll_write P w (tee_pending t) = (r, w')" by (cases "poll_write P w (tee_pending t)")
    note eq = drain_pending.simps [of P t, unfolded w r]
    show ?thesis
    proof (cases r)
      case Pending
      then show ?thesis using assms(3) [OF w] r ne by (subst eq) simp
    next
      case (Ready x)
      show ?thesis
      proof (cases x)
        case (Inl e)
        then show ?thesis using assms(4) [OF w] Ready r ne by (subst eq) simp
      next
        case (Inr n)
        show ?thesis
        proof (cases "n = 0 \<or> length (tee_pending t) < n")
          case True
          then show ?thesis
            using assms(4) [OF w] assms(5) [OF w] r Ready Inr ne by (subst eq) auto
        next
          case False
          then have "Q t (drain_pending P (t\<lparr>tee_state := Active w', tee_pending := drop n (tee_pending t)\<rparr>))"
            using assms(6) [OF w] less r Ready Inr ne by simp
          then show ?thesis using False Ready Inr r ne by (subst eq) simp
        qed
      qed
    qed
  qed
qed

lemma drain_keeps:
  assumes "drain_pending P t = Some (x, t')"
  shows "tee_upstream t' = tee_upstream t \<and> tee_cap t' = tee_cap t \<and> tee_trailers t' = tee_trailers t \<and>
     (x = Ready () \<longrightarrow> tee_pending t' = []) \<and>
     (tee_state t' = tee_state t \<or> (\<exists>w. tee_state t = Active w) \<and> (tee_state t' = Aborted \<or> (\<exists>w. tee_state t' = Active w)))"
    (is "?K t x t'")
proof -
  have "\<forall>x t'. drain_pending P t = Some (x, t') \<longrightarrow> ?K t x t'"
  proof (rule drain_induct [where Q = "\<lambda>t r. \<forall>x t'. r = Some (x, t') \<longrightarrow> ?K t x t'"], goal_cases)
    case (6 t w n w')
    let ?t = "t\<lparr>tee_state := Active w', tee_pending := drop n (tee_pending t)\<rparr>"
    have "?K t x t'" if "?K ?t x t'" for x t'
      using that 6(1) by auto
    then show ?case using 6(5) by blast
  qed (auto simp: tee_abort_def)
  with assms show ?thesis by blast
qed

text \<open>What a poll may do to the storage: nothing, or poll the finalize of the whole source.\<close>

definition tee_storage_step ::
  "('h, 's, 'w, 'f) put_handle \<Rightarrow> ('h, 'k, 'w, 'f, 'u) tee_view \<Rightarrow> 'k \<Rightarrow> 'h cache_policy \<Rightarrow> u64 \<Rightarrow>
   bytes \<Rightarrow> bytes \<Rightarrow> 's \<Rightarrow> 's \<Rightarrow> bool" where
  "tee_storage_step P V k pol cap src d s s' \<longleftrightarrow>
     s' = s \<or>
     d = src \<and> length src \<le> unat cap \<and>
     (\<exists>f. commits V k pol src f \<and> s' = snd (snd (poll_finalize P f s)))"

lemma tee_storage_step_refl [simp]: "tee_storage_step P V k pol cap src d s s"
  by (simp add: tee_storage_step_def)

context put_writer
begin

abbreviation view_of :: "('u \<Rightarrow> bytes) \<Rightarrow> ('h, 'k, 'w, 'f, 'u) tee_view" where
  "view_of rem \<equiv> \<lparr>vw_content = content, vw_key = wk, vw_policy = wp,
                   vf_key = fk, vf_variant = fv, vu_remaining = rem\<rparr>"

lemma drain_total:
  assumes "ok p"
  shows "drain_pending (P p) t \<noteq> None"
proof (rule drain_induct [where Q = "\<lambda>t r. r \<noteq> None"], goal_cases)
  case (5 t w n w')
  then show ?case using write_ok [OF assms 5(2)] by simp
qed auto

lemma drain_inv:
  assumes "ok p" and "tee_inv (view_of rem) k pol cap src d t"
    and "drain_pending (P p) t = Some (x, t')"
  shows "tee_inv (view_of rem) k pol cap src d t'"
proof -
  let ?I = "tee_inv (view_of rem) k pol cap src d"
  have "\<forall>x t'. ?I t \<longrightarrow> drain_pending (P p) t = Some (x, t') \<longrightarrow> ?I t'"
  proof (rule drain_induct [where Q = "\<lambda>t r. \<forall>x t'. ?I t \<longrightarrow> r = Some (x, t') \<longrightarrow> ?I t'"], goal_cases)
    case (1 t)
    then show ?case by simp
  next
    case (2 t)
    then show ?case by (auto simp: tee_inv_def split: tee_state.splits)
  next
    case (3 t w w')
    then show ?case
      using write_keeps [OF assms(1) 3(2)] write_pending [OF assms(1) 3(2)]
      by (auto simp: tee_inv_def)
  next
    case (4 t w)
    then show ?case using tee_inv_abort by auto
  next
    case (5 t w n w')
    then show ?case by simp
  next
    case (6 t w n w')
    have "?I (t\<lparr>tee_state := Active w', tee_pending := drop n (tee_pending t)\<rparr>)" if "?I t"
      using that 6(1) write_keeps [OF assms(1) 6(2)] write_ok [OF assms(1) 6(2)]
      by (auto simp: tee_inv_def)
    then show ?case using 6(5) by blast
  qed
  with assms(2,3) show ?thesis by blast
qed

lemma drive_inv:
  assumes "ok p" and "tee_inv (view_of rem) k pol cap src d t"
    and "drive_finalize (P p) t s = (x, t', s')"
  shows "tee_inv (view_of rem) k pol cap src d t'"
    and "tee_storage_step (P p) (view_of rem) k pol cap src d s s'"
    and "x = Ready () \<Longrightarrow> tee_state t' \<noteq> Finalizing f"
  using assms(2,3) finalize_stays [OF assms(1)]
  by (auto simp: drive_finalize_def tee_inv_def tee_storage_step_def commits_def
      split: tee_state.splits prod.splits poll.splits)

lemma eof_inv:
  assumes "ok p" and "tee_inv (view_of rem) k pol cap src d t" and "tee_pending t = []" and "d = src"
    and "\<And>u. rem (snd (body_trailers B u)) = rem u"
    and "tee_eof B (P p) t s = (r, t', s')"
  shows "tee_inv (view_of rem) k pol cap src d t' \<and> delivered r = [] \<and>
     tee_storage_step (P p) (view_of rem) k pol cap src d s s'"
proof (cases "tee_state t")
  case (Active w)
  obtain tr u where u: "body_trailers B (tee_upstream t) = (tr, u)" by (cases "body_trailers B (tee_upstream t)")
  let ?t = "t\<lparr>tee_upstream := u, tee_trailers := tr, tee_state := Finalizing (finalize (P p) w tr)\<rparr>"
  have "rem u = rem (tee_upstream t)" using assms(5) u by (metis snd_conv)
  then have inv: "tee_inv (view_of rem) k pol cap src d ?t"
    using assms(2-4) Active finalize_key [OF assms(1)] finalize_content [OF assms(1)]
    by (auto simp: tee_inv_def commits_def word_le_nat_alt)
  obtain x t2 s2 where dr: "drive_finalize (P p) ?t s = (x, t2, s2)" by (metis prod_cases3)
  from drive_inv(1,2) [OF assms(1) inv dr] show ?thesis
    using assms(6) Active u dr by (cases x) (auto simp: tee_eof_def delivered_def)
qed (use assms in \<open>auto simp: tee_eof_def delivered_def\<close>)

lemma chunk_inv:
  assumes "ok p" and "tee_inv (view_of rem) k pol cap src d t" and "tee_pending t = []"
    and "rem (tee_upstream t) = bs @ rem u" and "length bs \<le> n" and "n < 2 ^ 64"
    and "\<And>f. tee_state t \<noteq> Finalizing f" and "tee_state t \<noteq> Done"
    and "tee_chunk (P p) (t\<lparr>tee_upstream := u\<rparr>) n bs = Some t'"
  shows "tee_inv (view_of rem) k pol cap src (d @ bs) t'"
proof (cases "tee_state t")
  case (Active w)
  let ?bw = "tee_bytes_written t" and ?l = "word_of_nat (length bs) :: u64"
  have src: "(d @ bs) @ rem u = src" "tee_cap t = cap"
    and a: "wk w = k" "wp w = pol" "content w = d" "length d = unat ?bw"
    using assms(2-4) Active by (auto simp: tee_inv_def)
  have l: "unat ?l = length bs" using assms(5,6) by (simp add: unat_of_nat_u64)
  have sum: "length (d @ bs) = unat total \<and> total \<le> cap"
    if "u64_checked_add ?bw ?l = Some total" "\<not> cap < u64_saturating_add ?bw ?l" for total
    using that a(4) l unat_add_u64 [of ?bw ?l]
    by (auto simp: u64_checked_add_def u64_saturating_add_def split: if_splits)
  have abort: ?thesis if "t' = tee_abort (t\<lparr>tee_upstream := u\<rparr>)"
    using that src by (simp add: tee_inv_def tee_abort_def)
  obtain r w' where r: "poll_write (P p) w bs = (r, w')" by (cases "poll_write (P p) w bs")
  note keeps = write_keeps [OF assms(1) r]
  show ?thesis
  proof (cases "cap < u64_saturating_add ?bw ?l")
    case True
    then show ?thesis using assms(9) Active src abort by (simp add: tee_chunk_def)
  next
    case False
    show ?thesis
    proof (cases r)
      case Pending
      then show ?thesis
        using assms(3,5,9) Active src a r keeps sum [OF _ False] False write_pending [OF assms(1), of w bs w']
        by (auto simp: tee_chunk_def tee_inv_def bind_Some_iff)
    next
      case (Ready x)
      show ?thesis
      proof (cases "\<exists>b. x = Inr b \<and> b \<noteq> 0")
        case True
        then obtain b where b: "x = Inr b" "b \<noteq> 0" by blast
        with assms(3,5,9) Active src r Ready False obtain total where
          t': "t' = t\<lparr>tee_upstream := u, tee_state := Active w', tee_bytes_written := total,
                 tee_pending := (if b < length bs then drop b bs else [])\<rparr>"
          and total: "u64_checked_add ?bw ?l = Some total"
          by (auto simp: tee_chunk_def Let_def bind_Some_iff)
        from write_ok [OF assms(1), of w bs b w'] r Ready b
        have "content w' = d @ take b bs" "b \<le> length bs" using a by auto
        then show ?thesis
          using t' src a keeps sum [OF total False] by (auto simp: tee_inv_def)
      next
        case False
        then have "t' = tee_abort (t\<lparr>tee_upstream := u\<rparr>)"
          using assms(5,9) Active src r Ready \<open>\<not> cap < u64_saturating_add ?bw ?l\<close>
          by (cases x) (auto simp: tee_chunk_def Let_def)
        then show ?thesis using abort by blast
      qed
    qed
  qed
qed (use assms in \<open>auto simp: tee_chunk_def tee_inv_def\<close>)

lemma poll_inv:
  assumes "ok p" and "byte_source (body_poll_read B) rem"
    and "\<And>u. rem (snd (body_trailers B u)) = rem u"
    and "tee_inv (view_of rem) k pol cap src d t" and "0 < n" and "n < 2 ^ 64"
    and "tee_poll_read B (P p) t n s = Some (r, t', s')"
  shows "tee_inv (view_of rem) k pol cap src (d @ delivered r) t' \<and>
     tee_storage_step (P p) (view_of rem) k pol cap src d s s' \<and>
     (r = Ready (Inr []) \<longrightarrow> d = src) \<and>
     (\<forall>e. r = Ready (Inl e) \<longrightarrow> fst (body_poll_read B (tee_upstream t) n) = Ready (Inl e))"
proof -
  obtain x t1 s1 where dr: "drive_finalize (P p) t s = (x, t1, s1)" by (metis prod_cases3)
  note d1 = drive_inv [OF assms(1,4) dr]
  show ?thesis
  proof (cases "x = Pending \<or> is_done t1")
    case True
    then show ?thesis
      using assms(7) dr d1
      by (cases x) (auto simp: tee_poll_read_def delivered_def tee_inv_def is_done_def split: tee_state.splits)
  next
    case False
    then have x: "x = Ready ()" and nd: "\<not> is_done t1" by (auto intro: poll.exhaust [of x])
    have "s1 = s" and up1: "tee_upstream t1 = tee_upstream t"
      using dr nd x by (auto simp: drive_finalize_def is_done_def split: tee_state.splits prod.splits poll.splits)
    obtain y t2 where dp: "drain_pending (P p) t1 = Some (y, t2)"
      using drain_total [OF assms(1), of t1] by (cases "drain_pending (P p) t1") auto
    note i2 = drain_inv [OF assms(1) d1(1) dp] and k2 = drain_keeps [OF dp]
    have st: "\<And>f. tee_state t2 \<noteq> Finalizing f" "tee_state t2 \<noteq> Done"
      using k2 d1(3) [OF x] nd by (auto simp: is_done_def)
    show ?thesis
    proof (cases y)
      case Pending
      then show ?thesis
        using assms(7) dr x nd dp i2 \<open>s1 = s\<close> by (auto simp: tee_poll_read_def delivered_def)
    next
      case (Ready z)
      then have pend: "tee_pending t2 = []" using k2 by simp
      obtain v u where rd: "body_poll_read B (tee_upstream t2) n = (v, u)" by (cases "body_poll_read B (tee_upstream t2) n")
      let ?t = "t2\<lparr>tee_upstream := u\<rparr>"
      show ?thesis
      proof (cases "\<exists>bs. v = Ready (Inr bs)")
        case False
        then have "rem u = rem (tee_upstream t2)"
          using rd byte_source.read_pending [OF assms(2)] byte_source.read_error [OF assms(2)]
          by (metis poll.exhaust sum.exhaust)
        then have "tee_inv (view_of rem) k pol cap src d ?t" using tee_inv_upstream [OF i2] by simp
        moreover have "r = v" "t' = ?t" "s' = s" "delivered v = []" "r \<noteq> Ready (Inr [])"
          using assms(7) dr x nd dp Ready rd False \<open>s1 = s\<close>
          by (auto simp: tee_poll_read_def delivered_def split: poll.splits sum.splits)
        ultimately show ?thesis using rd k2 up1 by simp
      next
        case True
        then obtain bs where v: "v = Ready (Inr bs)" by blast
        note ro = byte_source.read_ok [OF assms(2) rd [unfolded v]]
        show ?thesis
        proof (cases "bs = []")
          case True
          then have "rem u = []" "rem (tee_upstream t2) = []" using ro assms(5) by auto
          then have i: "tee_inv (view_of rem) k pol cap src d ?t" and e: "d = src"
            using tee_inv_upstream [OF i2, of u] i2 by (auto simp: tee_inv_def)
          have te: "tee_eof B (P p) ?t s = (r, t', s')"
            using assms(7) dr x nd dp Ready rd v True \<open>s1 = s\<close> by (simp add: tee_poll_read_def)
          from eof_inv [where rem = rem and B = B, OF assms(1) i _ e assms(3) te] pend
          show ?thesis using te e
            by (auto simp: tee_eof_def split: tee_state.splits prod.splits poll.splits)
        next
          case False
          then have "tee_chunk (P p) ?t n bs = Some t'" and r: "r = Ready (Inr bs)" "s' = s"
            using assms(7) dr x nd dp Ready rd v \<open>s1 = s\<close> by (auto simp: tee_poll_read_def bind_Some_iff)
          from chunk_inv [OF assms(1) i2 pend _ _ assms(6) st this(1)] ro show ?thesis
            using False by (simp add: r delivered_def)
        qed
      qed
    qed
  qed
qed

lemma reach_inv:
  assumes "tee_reach B (P p) (tee_new u w cap) d t" and "ok p"
    and "byte_source (body_poll_read B) rem" and "\<And>u. rem (snd (body_trailers B u)) = rem u"
    and "content w = []" and "wk w = k" and "wp w = pol"
  shows "tee_inv (view_of rem) k pol cap (rem u) d t"
  using assms(1)
proof (induction rule: tee_reach.induct)
  case start
  then show ?case using assms(5-7) by (simp add: tee_inv_def tee_new_def)
next
  case (poll d t n s r t' s')
  then show ?case using poll_inv [OF assms(2-4)] by blast
next
  case (take d t)
  then show ?case by (simp add: tee_inv_def tee_take_trailers_def cong: tee_state.case_cong)
qed

lemma chunk_total:
  assumes "tee_cap t < - 1" and "length bs \<le> n"
  shows "tee_chunk (P p) t n bs \<noteq> None"
proof -
  let ?a = "tee_bytes_written t" and ?b = "word_of_nat (length bs) :: u64"
  have "\<exists>total. u64_checked_add ?a ?b = Some total" if "\<not> tee_cap t < u64_saturating_add ?a ?b"
    using that u64_saturating_add_le [of ?a ?b "tee_cap t"] assms(1)
    by (auto simp: u64_checked_add_def)
  then show ?thesis
    using assms(2)
    by (cases "tee_cap t < u64_saturating_add ?a ?b")
       (auto simp: tee_chunk_def Let_def split: tee_state.split prod.split poll.split sum.split)
qed

lemma poll_total:
  assumes "ok p" and "byte_source (body_poll_read B) rem" and "n < 2 ^ 64" and "tee_cap t < - 1"
  shows "tee_poll_read B (P p) t n s \<noteq> None"
proof -
  obtain x t1 s1 where dr: "drive_finalize (P p) t s = (x, t1, s1)" by (metis prod_cases3)
  then have cap1: "tee_cap t1 = tee_cap t"
    by (auto simp: drive_finalize_def split: tee_state.splits prod.splits poll.splits)
  obtain y t2 where dp: "drain_pending (P p) t1 = Some (y, t2)"
    using drain_total [OF assms(1), of t1] by (cases "drain_pending (P p) t1") auto
  have "tee_cap t2 < - 1" using drain_keeps [OF dp] cap1 assms(4) by simp
  then have "tee_chunk (P p) (t2\<lparr>tee_upstream := u\<rparr>) n bs \<noteq> None"
    if "body_poll_read B (tee_upstream t2) n = (Ready (Inr bs), u)" for u bs
    using chunk_total [of "t2\<lparr>tee_upstream := u\<rparr>"] byte_source.read_ok [OF assms(2) that] by simp
  then show ?thesis
    using dr dp
    by (auto simp: tee_poll_read_def bind_eq_None_conv simp del: not_None_eq
        split: poll.split prod.split sum.split)
qed

end

subsection \<open>After an abort\<close>

lemma tee_aborted:
  assumes "tee_state t = Aborted" and "tee_poll_read B P t n s = Some (r, t', s')"
  shows "tee_state t' = Aborted \<and> tee_trailers t' = tee_trailers t \<and> s' = s \<and>
     body_poll_read B (tee_upstream t) n = (r, tee_upstream t')"
proof -
  have dr: "drive_finalize P t s = (Ready (), t, s)" using assms(1) by (simp add: drive_finalize_def)
  have dp: "drain_pending P t = Some (Ready (), t\<lparr>tee_pending := []\<rparr>)"
    using assms(1) by (subst drain_pending.simps) auto
  show ?thesis
    using assms dr dp
    by (auto simp: tee_poll_read_def is_done_def tee_eof_def tee_chunk_def
        split: poll.splits prod.splits sum.splits if_splits)
qed

end
