(* ===== verification/Handler.thy ===== *)
theory Handler
  imports Validation Storability Tee
begin

section \<open>What the two handlers share\<close>

text \<open>
  \<open>src/client.rs\<close> and \<open>src/server.rs\<close> both define a \<open>Cache\<close>, a \<open>CacheCtx\<close> that \<open>run\<close> leaves on
  the connection for the second half, and the same steps on them. The connection types come
  from \<open>trillium_client\<close> and \<open>trillium\<close>; the fields the handlers read and write are the record
  \<open>conn\<close>, which each handler extends. A body on a connection is a \<open>Body\<close> of the library, a tee
  with its known length, or the empty body.
\<close>

record cache =
  handler_options :: cache_options
  max_cacheable_size :: u64

definition DEFAULT_MAX_CACHEABLE_SIZE :: u64 where
  "DEFAULT_MAX_CACHEABLE_SIZE = 16 * 1024 * 1024"

definition cache_new :: cache where
  "cache_new = \<lparr>handler_options = cache_options_default, max_cacheable_size = DEFAULT_MAX_CACHEABLE_SIZE\<rparr>"

definition with_options :: "cache \<Rightarrow> cache_options \<Rightarrow> cache" where
  "with_options c opts = c\<lparr>handler_options := opts\<rparr>"

definition cache_shared :: "cache \<Rightarrow> cache" where
  "cache_shared c = c\<lparr>handler_options := (handler_options c)\<lparr>shared := True\<rparr>\<rparr>"

definition with_max_cacheable_size :: "cache \<Rightarrow> u64 \<Rightarrow> cache" where
  "with_max_cacheable_size c n = c\<lparr>max_cacheable_size := n\<rparr>"

datatype 'e cache_ctx =
    Hit
  | Revalidation 'e cache_key
  | Miss cache_key
  | Unsafe url

datatype ('h, 'b, 'w, 'f) served_body =
    PlainBody 'b
  | TeedBody "('h, 'b, 'w, 'f) teeing_reader" "u64 option"
  | EmptyBody

record ('h, 'b, 'w, 'f, 'e) conn =
  conn_method :: http_method
  conn_request_headers :: 'h
  conn_status :: "status option"
  conn_response_headers :: 'h
  conn_response_body :: "('h, 'b, 'w, 'f) served_body option"
  conn_halted :: bool
  conn_state :: "'e cache_ctx option"

text \<open>
  What the handlers use of bodies: their length (\<open>content_length\<close> or \<open>len\<close>), and their
  conversion into the upstream of a tee without chunked framing, which the client does through
  \<open>Body::new_with_trailers\<close> with the length and the server directly.
\<close>

record ('h, 'b, 'w, 'f) served_ops =
  served_len :: "('h, 'b, 'w, 'f) served_body \<Rightarrow> u64 option"
  served_unframed :: "('h, 'b, 'w, 'f) served_body \<Rightarrow> u64 option \<Rightarrow> 'b"
  served_without_framing :: "('h, 'b, 'w, 'f) served_body \<Rightarrow> 'b"

text \<open>Invalidation of the keys of a URI (\<open>invalidate_url\<close> of both handlers).\<close>

definition invalidate_url :: "('h, 's, 'e, 'w, 'b) storage \<Rightarrow> 's \<Rightarrow> url \<Rightarrow> 's" where
  "invalidate_url S s u =
     (let s = storage_invalidate S s (cache_key_new Get u)
      in storage_invalidate S s (cache_key_new Head u))"

text \<open>
  The loop over \<open>Location\<close> and \<open>Content-Location\<close>: a value that does not resolve, or that
  resolves to another host, is skipped.
\<close>

definition invalidate_header ::
  "'h ext \<Rightarrow> ('h, 's, 'e, 'w, 'b) storage \<Rightarrow> url \<Rightarrow> 'h \<Rightarrow> 's \<Rightarrow> known_header_name \<Rightarrow> 's" where
  "invalidate_header E S u hs s header =
     (case headers_get_str E hs (Known header) of
        None \<Rightarrow> s
      | Some value \<Rightarrow>
          (case url_join E u value of
             None \<Rightarrow> s
           | Some target \<Rightarrow>
               if url_host_str E target \<noteq> url_host_str E u then s
               else invalidate_url S s target))"

definition invalidate_unsafe ::
  "'h ext \<Rightarrow> ('h, 's, 'e, 'w, 'b) storage \<Rightarrow> url \<Rightarrow> status \<Rightarrow> 'h \<Rightarrow> 's \<Rightarrow> 's" where
  "invalidate_unsafe E S u st hs s =
     (if status_is_success E st \<or> status_is_redirection E st
      then foldl (invalidate_header E S u hs) (invalidate_url S s u) [Location, ContentLocation]
      else s)"

subsection \<open>Invalidation\<close>

text \<open>The URIs an unsafe request invalidates.\<close>

definition invalidated_urls :: "'h ext \<Rightarrow> url \<Rightarrow> 'h \<Rightarrow> url list" where
  "invalidated_urls E u hs =
     u # List.map_filter (\<lambda>header.
           Option.bind (headers_get_str E hs (Known header)) (\<lambda>value.
             Option.bind (url_join E u value) (\<lambda>target.
               if url_host_str E target = url_host_str E u then Some target else None)))
         [Location, ContentLocation]"

lemma invalidate_unsafe_eq:
  "invalidate_unsafe E S u st hs s =
     (if status_is_success E st \<or> status_is_redirection E st
      then foldl (invalidate_url S) s (invalidated_urls E u hs) else s)"
  by (auto simp: invalidate_unsafe_def invalidate_header_def invalidated_urls_def List.map_filter_def
      split: option.split)

lemma invalidated_urls_host:
  "v \<in> set (invalidated_urls E u hs) \<Longrightarrow> url_host_str E v = url_host_str E u"
  by (auto simp: invalidated_urls_def List.map_filter_def bind_Some_iff split: if_splits)

definition cached_keys :: "url \<Rightarrow> cache_key set" where
  "cached_keys u = {cache_key_new Get u, cache_key_new Head u}"

context cache_storage
begin

lemma invalidate_url_visible:
  assumes "ok p"
  shows "subseq (visible (S p) ev (invalidate_url (S p) s u) k)
           (if k \<in> cached_keys u then [] else visible (S p) ev s k)"
proof -
  let ?s1 = "storage_invalidate (S p) s (cache_key_new Get u)"
  have 1: "subseq (visible (S p) ev ?s1 k) (if k = cache_key_new Get u then [] else visible (S p) ev s k)"
    and 2: "subseq (visible (S p) ev (invalidate_url (S p) s u) k)
      (if k = cache_key_new Head u then [] else visible (S p) ev ?s1 k)"
    using invalidate_law [OF assms, of s "cache_key_new Get u" k]
      invalidate_law [OF assms, of ?s1 "cache_key_new Head u" k]
    unfolding invalidate_url_def Let_def .
  show ?thesis
    using 1 2 subseq_order.order_trans by (auto simp: cached_keys_def split: if_splits)
qed

lemma invalidate_urls_visible:
  assumes "ok p"
  shows "subseq (visible (S p) ev (foldl (invalidate_url (S p)) s us) k)
           (if \<exists>u \<in> set us. k \<in> cached_keys u then [] else visible (S p) ev s k)"
proof (induction us arbitrary: s)
  case Nil
  then show ?case by simp
next
  case (Cons u us)
  show ?case
    using Cons [of "invalidate_url (S p) s u"] invalidate_url_visible [OF assms, of s u k]
      subseq_order.order_trans
    by (auto split: if_splits)
qed

end

end
