(* ===== verification/Memory.thy ===== *)
theory Memory
  imports Storage
begin

section \<open>The in-memory storage (\<open>src/memory.rs\<close>)\<close>

text \<open>
  The backend over a concurrent map of the crate \<open>moka\<close>, which is the parameter record
  \<open>moka\<close>: the state \<open>'c\<close> is the shared map, a bucket holds the variants of a key. Clones of the
  handle to the map in entries and put handles are the shared state that the operations are
  given. The documented behaviour of \<open>moka\<close> is \<open>moka_laws\<close> (an operation does what it says,
  but entries may be evicted or expire at any time) and, for a map built with neither a
  capacity nor a lifetime, \<open>moka_lossless\<close>. The interpretations show that the storage keeps
  the contracts of the storage interface.
\<close>

type_synonym 'h bucket = "'h variant list"

datatype 'v moka_op = Nop | PutValue 'v

record ('c, 'd, 'v) moka =
  moka_builder :: "(cache_key \<Rightarrow> 'v \<Rightarrow> u32) \<Rightarrow> 'd"
  moka_max_capacity :: "'d \<Rightarrow> u64 \<Rightarrow> 'd"
  moka_time_to_idle :: "'d \<Rightarrow> duration \<Rightarrow> 'd"
  moka_time_to_live :: "'d \<Rightarrow> duration \<Rightarrow> 'd"
  moka_build :: "'d \<Rightarrow> 'c"
  moka_get :: "'c \<Rightarrow> cache_key \<Rightarrow> 'v option \<times> 'c"
  moka_and_upsert_with :: "'c \<Rightarrow> cache_key \<Rightarrow> ('v option \<Rightarrow> 'v) \<Rightarrow> 'c"
  moka_and_compute_with :: "'c \<Rightarrow> cache_key \<Rightarrow> ('v option \<Rightarrow> 'v moka_op) \<Rightarrow> 'c"
  moka_invalidate :: "'c \<Rightarrow> cache_key \<Rightarrow> 'c"

subsection \<open>Construction\<close>

definition DEFAULT_MAX_CAPACITY_BYTES :: u64 where
  "DEFAULT_MAX_CAPACITY_BYTES = 256 * 1024 * 1024"

definition weigh_bucket :: "cache_key \<Rightarrow> 'h bucket \<Rightarrow> u32" where
  "weigh_bucket key bucket =
     (let total = sum_list (map (\<lambda>v. word_of_nat (length (v_body v))) bucket) :: u64
      in if unat total < 2 ^ 32 then word_of_nat (unat total) else - 1)"

definition build_cache ::
  "('c, 'd, 'h bucket) moka \<Rightarrow> u64 option \<Rightarrow> duration option \<Rightarrow> duration option \<Rightarrow> 'c" where
  "build_cache M max_cap tti ttl =
     (let builder = moka_builder M weigh_bucket;
          builder = (case max_cap of Some cap \<Rightarrow> moka_max_capacity M builder cap | None \<Rightarrow> builder);
          builder = (case tti of Some d \<Rightarrow> moka_time_to_idle M builder d | None \<Rightarrow> builder);
          builder = (case ttl of Some d \<Rightarrow> moka_time_to_live M builder d | None \<Rightarrow> builder)
      in moka_build M builder)"

record 'c in_memory_storage =
  ims_cache :: 'c
  max_capacity_bytes :: "u64 option"
  time_to_idle :: "duration option"
  ims_time_to_live :: "duration option"

definition in_memory_new :: "('c, 'd, 'h bucket) moka \<Rightarrow> 'c in_memory_storage" where
  "in_memory_new M =
     \<lparr>ims_cache = build_cache M (Some DEFAULT_MAX_CAPACITY_BYTES) None None,
      max_capacity_bytes = Some DEFAULT_MAX_CAPACITY_BYTES,
      time_to_idle = None, ims_time_to_live = None\<rparr>"

definition rebuild ::
  "('c, 'd, 'h bucket) moka \<Rightarrow> 'c in_memory_storage \<Rightarrow> 'c in_memory_storage" where
  "rebuild M st =
     st\<lparr>ims_cache := build_cache M (max_capacity_bytes st) (time_to_idle st) (ims_time_to_live st)\<rparr>"

definition with_max_capacity_bytes ::
  "('c, 'd, 'h bucket) moka \<Rightarrow> 'c in_memory_storage \<Rightarrow> u64 \<Rightarrow> 'c in_memory_storage" where
  "with_max_capacity_bytes M st n = rebuild M (st\<lparr>max_capacity_bytes := Some n\<rparr>)"

definition unbounded ::
  "('c, 'd, 'h bucket) moka \<Rightarrow> 'c in_memory_storage \<Rightarrow> 'c in_memory_storage" where
  "unbounded M st = rebuild M (st\<lparr>max_capacity_bytes := None\<rparr>)"

definition with_time_to_idle ::
  "('c, 'd, 'h bucket) moka \<Rightarrow> 'c in_memory_storage \<Rightarrow> duration \<Rightarrow> 'c in_memory_storage" where
  "with_time_to_idle M st d = rebuild M (st\<lparr>time_to_idle := Some d\<rparr>)"

definition with_time_to_live ::
  "('c, 'd, 'h bucket) moka \<Rightarrow> 'c in_memory_storage \<Rightarrow> duration \<Rightarrow> 'c in_memory_storage" where
  "with_time_to_live M st d = rebuild M (st\<lparr>ims_time_to_live := Some d\<rparr>)"

subsection \<open>Entries\<close>

record 'h in_memory_entry =
  ime_variant :: "'h variant"
  ime_key :: cache_key

definition in_memory_policy :: "'h in_memory_entry \<Rightarrow> 'h cache_policy" where
  "in_memory_policy e = v_policy (ime_variant e)"

text \<open>The mapping with the flag \<open>updated\<close> of the closure in \<open>refresh_policy\<close>.\<close>

definition refresh_bucket :: "'h cache_policy \<Rightarrow> 'h bucket \<Rightarrow> bool \<times> 'h bucket" where
  "refresh_bucket new_policy bucket =
     foldl (\<lambda>(updated, out) v.
        if \<not> updated \<and> same_variant_as (v_policy v) new_policy
        then (True, out @ [\<lparr>v_policy = new_policy, v_body = v_body v, v_trailers = v_trailers v\<rparr>])
        else (updated, out @ [v])) (False, []) bucket"

text \<open>The closure given to \<open>and_compute_with\<close>.\<close>

definition refresh_op :: "'h cache_policy \<Rightarrow> 'h bucket option \<Rightarrow> 'h bucket moka_op" where
  "refresh_op new_policy maybe_entry =
     (case maybe_entry of
        None \<Rightarrow> Nop
      | Some bucket \<Rightarrow>
          (let (updated, new_variants) = refresh_bucket new_policy bucket
           in if updated then PutValue new_variants else Nop))"

definition in_memory_refresh_policy ::
  "('c, 'd, 'h bucket) moka \<Rightarrow> 'h in_memory_entry \<Rightarrow> 'h cache_policy \<Rightarrow> 'c \<Rightarrow>
   unit io_result \<times> 'h in_memory_entry \<times> 'c" where
  "in_memory_refresh_policy M e new_policy c =
     (let e = e\<lparr>ime_variant := (ime_variant e)\<lparr>v_policy := new_policy\<rparr>\<rparr>;
          c = moka_and_compute_with M c (ime_key e) (refresh_op new_policy)
      in (Inr (), e, c))"

record 'h replay_body_source =
  rbs_body :: bytes
  rbs_position :: nat
  rbs_trailers :: "'h option"

text \<open>\<open>new_body\<close> is \<open>Body::new_with_trailers\<close>.\<close>

definition in_memory_open ::
  "('h replay_body_source \<Rightarrow> u64 option \<Rightarrow> 'b) \<Rightarrow> 'h in_memory_entry \<Rightarrow> 'c \<Rightarrow> 'b io_result \<times> 'c" where
  "in_memory_open new_body e c =
     (let body = v_body (ime_variant e);
          len = (if length body < 2 ^ 64 then Some (word_of_nat (length body)) else None);
          source = \<lparr>rbs_body = body, rbs_position = 0, rbs_trailers = v_trailers (ime_variant e)\<rparr>
      in (Inr (new_body source len), c))"

text \<open>The subtraction \<open>len - position\<close> panics when the position is past the end.\<close>

definition replay_poll_read ::
  "'h replay_body_source \<Rightarrow> nat \<Rightarrow> (bytes io_result poll \<times> 'h replay_body_source) option" where
  "replay_poll_read src buf_len =
     (if length (rbs_body src) < rbs_position src then None
      else let remaining = length (rbs_body src) - rbs_position src;
               n = min remaining buf_len
           in Some (Ready (Inr (take n (drop (rbs_position src) (rbs_body src)))),
                    if 0 < n then src\<lparr>rbs_position := rbs_position src + n\<rparr> else src))"

definition replay_trailers ::
  "'h replay_body_source \<Rightarrow> 'h option \<times> 'h replay_body_source" where
  "replay_trailers src = (rbs_trailers src, src\<lparr>rbs_trailers := None\<rparr>)"

subsection \<open>The storage and its put handle\<close>

definition in_memory_get ::
  "('c, 'd, 'h bucket) moka \<Rightarrow> 'c \<Rightarrow> cache_key \<Rightarrow> 'h in_memory_entry list \<times> 'c" where
  "in_memory_get M c key =
     (case moka_get M c key of
        (None, c) \<Rightarrow> ([], c)
      | (Some bucket, c) \<Rightarrow> (map (\<lambda>v. \<lparr>ime_variant = v, ime_key = key\<rparr>) bucket, c))"

record 'h in_memory_put_handle =
  imp_key :: cache_key
  imp_policy :: "'h cache_policy"
  imp_buffer :: bytes

definition in_memory_put ::
  "'c \<Rightarrow> cache_key \<Rightarrow> 'h cache_policy \<Rightarrow> 'h in_memory_put_handle io_result \<times> 'c" where
  "in_memory_put c key pol = (Inr \<lparr>imp_key = key, imp_policy = pol, imp_buffer = []\<rparr>, c)"

definition in_memory_invalidate :: "('c, 'd, 'h bucket) moka \<Rightarrow> 'c \<Rightarrow> cache_key \<Rightarrow> 'c" where
  "in_memory_invalidate M c key = moka_invalidate M c key"

definition in_memory_poll_write ::
  "'h in_memory_put_handle \<Rightarrow> bytes \<Rightarrow> nat io_result poll \<times> 'h in_memory_put_handle" where
  "in_memory_poll_write w buf =
     (Ready (Inr (length buf)), w\<lparr>imp_buffer := imp_buffer w @ buf\<rparr>)"

text \<open>
  The future of \<open>finalize\<close> holds the handle and the trailers; polling it runs the upsert of
  the map, which is atomic for the key.
\<close>

type_synonym 'h in_memory_future = "'h in_memory_put_handle \<times> 'h option"

definition in_memory_finalize ::
  "('c, 'd, 'h bucket) moka \<Rightarrow> 'h in_memory_future \<Rightarrow> 'c \<Rightarrow>
   unit io_result poll \<times> 'h in_memory_future \<times> 'c" where
  "in_memory_finalize M fut c =
     (let (h, trailers) = fut;
          new_variant = \<lparr>v_policy = imp_policy h, v_body = imp_buffer h, v_trailers = trailers\<rparr>;
          c = moka_and_upsert_with M c (imp_key h) (\<lambda>maybe_entry.
                let variants = (case maybe_entry of Some bucket \<Rightarrow> bucket | None \<Rightarrow> []);
                    variants = filter (\<lambda>v. \<not> same_variant_as (v_policy v) (v_policy new_variant)) variants
                in variants @ [new_variant])
      in (Ready (Inr ()), fut, c))"

text \<open>The parameters of the backend: the map and the constructor of bodies.\<close>

record ('c, 'd, 'h, 'b) mem_env =
  me_moka :: "('c, 'd, 'h bucket) moka"
  me_new_body :: "'h replay_body_source \<Rightarrow> u64 option \<Rightarrow> 'b"
  me_keeps :: "'c \<Rightarrow> bool"

definition in_memory_storage_ops ::
  "('c, 'd, 'h, 'b) mem_env \<Rightarrow> ('h, 'c, 'h in_memory_entry, 'h in_memory_put_handle, 'b) storage" where
  "in_memory_storage_ops p =
     \<lparr>storage_get = in_memory_get (me_moka p),
      storage_put = in_memory_put,
      storage_invalidate = in_memory_invalidate (me_moka p),
      entry_policy = in_memory_policy,
      entry_refresh_policy = in_memory_refresh_policy (me_moka p),
      entry_open = in_memory_open (me_new_body p)\<rparr>"

definition in_memory_put_ops ::
  "('c, 'd, 'h, 'b) mem_env \<Rightarrow> ('h, 'c, 'h in_memory_put_handle, 'h in_memory_future) put_handle" where
  "in_memory_put_ops p =
     \<lparr>poll_write = in_memory_poll_write,
      finalize = Pair,
      poll_finalize = in_memory_finalize (me_moka p)\<rparr>"

subsection \<open>Documented behaviour of the map\<close>

abbreviation moka_lookup :: "('c, 'd, 'v) moka \<Rightarrow> 'c \<Rightarrow> cache_key \<Rightarrow> 'v option" where
  "moka_lookup M c k \<equiv> fst (moka_get M c k)"

definition moka_laws :: "('c, 'd, 'v) moka \<Rightarrow> bool" where
  "moka_laws M \<longleftrightarrow>
     (\<forall>b k. moka_lookup M (moka_build M b) k = None) \<and>
     (\<forall>c k k'. moka_lookup M (snd (moka_get M c k)) k' \<in> {None, moka_lookup M c k'}) \<and>
     (\<forall>c k f k'. moka_lookup M (moka_and_upsert_with M c k f) k' \<in>
        {None, if k' = k then Some (f (moka_lookup M c k)) else moka_lookup M c k'}) \<and>
     (\<forall>c k f k'. moka_lookup M (moka_and_compute_with M c k f) k' \<in>
        {None, if k' = k then (case f (moka_lookup M c k) of
                                 Nop \<Rightarrow> moka_lookup M c k | PutValue v \<Rightarrow> Some v)
               else moka_lookup M c k'}) \<and>
     (\<forall>c k k'. moka_lookup M (moka_invalidate M c k) k' \<in>
        {None, if k' = k then None else moka_lookup M c k'})"

text \<open>
  The states of a map without capacity and lifetimes, \<open>keeps\<close>, drop nothing; the builder
  makes one when no limit is set.
\<close>

definition moka_lossless :: "('c, 'd, 'v) moka \<Rightarrow> ('c \<Rightarrow> bool) \<Rightarrow> bool" where
  "moka_lossless M keeps \<longleftrightarrow>
     (\<forall>w. keeps (moka_build M (moka_builder M w))) \<and>
     (\<forall>c. keeps c \<longrightarrow>
        (\<forall>k. keeps (snd (moka_get M c k)) \<and>
           (\<forall>k'. moka_lookup M (snd (moka_get M c k)) k' = moka_lookup M c k')) \<and>
        (\<forall>k f. keeps (moka_and_upsert_with M c k f) \<and>
           (\<forall>k'. moka_lookup M (moka_and_upsert_with M c k f) k' =
              (if k' = k then Some (f (moka_lookup M c k)) else moka_lookup M c k'))) \<and>
        (\<forall>k f. keeps (moka_and_compute_with M c k f) \<and>
           (\<forall>k'. moka_lookup M (moka_and_compute_with M c k f) k' =
              (if k' = k then (case f (moka_lookup M c k) of
                                 Nop \<Rightarrow> moka_lookup M c k | PutValue v \<Rightarrow> Some v)
               else moka_lookup M c k'))) \<and>
        (\<forall>k. keeps (moka_invalidate M c k) \<and>
           (\<forall>k'. moka_lookup M (moka_invalidate M c k) k' =
              (if k' = k then None else moka_lookup M c k'))))"

lemma moka_lawsD:
  assumes "moka_laws M"
  shows "moka_lookup M (moka_build M b) k = None"
    and "moka_lookup M (snd (moka_get M c k)) k' \<in> {None, moka_lookup M c k'}"
    and "moka_lookup M (moka_and_upsert_with M c k f) k' \<in>
      {None, if k' = k then Some (f (moka_lookup M c k)) else moka_lookup M c k'}"
    and "moka_lookup M (moka_and_compute_with M c k g) k' \<in>
      {None, if k' = k then (case g (moka_lookup M c k) of
                               Nop \<Rightarrow> moka_lookup M c k | PutValue v \<Rightarrow> Some v)
             else moka_lookup M c k'}"
    and "moka_lookup M (moka_invalidate M c k) k' \<in>
      {None, if k' = k then None else moka_lookup M c k'}"
  using assms unfolding moka_laws_def by blast+

text \<open>The bucket of a key, empty when the map has none.\<close>

definition bucket_of :: "('c, 'd, 'h bucket) moka \<Rightarrow> 'c \<Rightarrow> cache_key \<Rightarrow> 'h bucket" where
  "bucket_of M c k = (case moka_lookup M c k of None \<Rightarrow> [] | Some b \<Rightarrow> b)"

lemma visible_in_memory [simp]:
  "visible (in_memory_storage_ops p) ime_variant c k = bucket_of (me_moka p) c k"
  by (auto simp: visible_def in_memory_storage_ops_def in_memory_get_def bucket_of_def o_def
      split: prod.split option.split)

lemma refresh_bucket_eq:
  "refresh_bucket q bucket =
     ((\<exists>v \<in> set bucket. same_variant_as (v_policy v) q), spec_refresh q bucket)"
proof -
  let ?f = "\<lambda>(updated, out) v.
        if \<not> updated \<and> same_variant_as (v_policy v) q
        then (True, out @ [\<lparr>v_policy = q, v_body = v_body v, v_trailers = v_trailers v\<rparr>])
        else (updated, out @ [v])"
  have flagged: "foldl ?f (True, out) vs = (True, out @ vs)" for out and vs :: "'a bucket"
    by (induction vs arbitrary: out) auto
  have "foldl ?f (False, out) vs =
      ((\<exists>v \<in> set vs. same_variant_as (v_policy v) q), out @ spec_refresh q vs)" for out and vs :: "'a bucket"
    by (induction vs arbitrary: out) (auto simp: flagged)
  then show ?thesis by (simp add: refresh_bucket_def)
qed

text \<open>What the operations do to the buckets, when the map drops nothing and in general.\<close>

lemma bucket_shrinks:
  assumes "moka_lookup M c' k \<in> {None, x}" and "(case x of None \<Rightarrow> [] | Some b \<Rightarrow> b) = vs"
  shows "subseq (bucket_of M c' k) vs"
  using assms by (auto simp: bucket_of_def split: option.splits)

lemma compute_refresh_eq:
  "(case refresh_op q m of Nop \<Rightarrow> m | PutValue v \<Rightarrow> Some v) = map_option (spec_refresh q) m"
  by (auto simp: refresh_op_def refresh_bucket_eq spec_refresh_miss split: option.split)

definition future_variant :: "'h in_memory_future \<Rightarrow> 'h variant" where
  "future_variant f = \<lparr>v_policy = imp_policy (fst f), v_body = imp_buffer (fst f), v_trailers = snd f\<rparr>"

definition future_key :: "'h in_memory_future \<Rightarrow> cache_key" where
  "future_key f = imp_key (fst f)"

lemma finalize_eq:
  "in_memory_finalize M fut c =
     (Ready (Inr ()), fut, moka_and_upsert_with M c (future_key fut)
        (\<lambda>m. spec_commit (future_variant fut) (case m of None \<Rightarrow> [] | Some b \<Rightarrow> b)))"
  by (cases fut)
     (simp add: in_memory_finalize_def future_key_def future_variant_def spec_commit_def
       cong: option.case_cong)

lemma refresh_eq:
  "in_memory_refresh_policy M e q c =
     (Inr (), e\<lparr>ime_variant := (ime_variant e)\<lparr>v_policy := q\<rparr>\<rparr>,
      moka_and_compute_with M c (ime_key e) (refresh_op q))"
  by (simp add: in_memory_refresh_policy_def Let_def)

lemmas in_memory_ops_simps =
  in_memory_storage_ops_def in_memory_put_ops_def in_memory_put_def in_memory_open_def
  in_memory_invalidate_def in_memory_policy_def in_memory_poll_write_def

subsection \<open>The contracts hold\<close>

definition mem_ok :: "('c, 'd, 'h, 'b) mem_env \<Rightarrow> bool" where
  "mem_ok p \<longleftrightarrow> moka_laws (me_moka p)"

definition mem_lossless :: "('c, 'd, 'h, 'b) mem_env \<Rightarrow> bool" where
  "mem_lossless p \<longleftrightarrow> moka_laws (me_moka p) \<and> moka_lossless (me_moka p) (me_keeps p)"

lemma mem_sel:
  "storage_put (in_memory_storage_ops p) = in_memory_put"
  "storage_invalidate (in_memory_storage_ops p) = in_memory_invalidate (me_moka p)"
  "entry_policy (in_memory_storage_ops p) = in_memory_policy"
  "entry_refresh_policy (in_memory_storage_ops p) = in_memory_refresh_policy (me_moka p)"
  "entry_open (in_memory_storage_ops p) = in_memory_open (me_new_body p)"
  by (simp_all add: in_memory_storage_ops_def)

lemma mem_put_sel:
  "poll_write (in_memory_put_ops p) = in_memory_poll_write"
  "finalize (in_memory_put_ops p) = Pair"
  "poll_finalize (in_memory_put_ops p) = in_memory_finalize (me_moka p)"
  by (simp_all add: in_memory_put_ops_def)

lemma mem_get: "storage_get (in_memory_storage_ops p) = in_memory_get (me_moka p)"
  by (simp add: in_memory_storage_ops_def)

lemma mem_get_snd:
  "snd (storage_get (in_memory_storage_ops p) c k) = snd (moka_get (me_moka p) c k)"
  by (auto simp: in_memory_storage_ops_def in_memory_get_def split: prod.split option.split)

lemma mem_bucket_laws:
  assumes "mem_ok p"
  shows "subseq (bucket_of (me_moka p) (snd (moka_get (me_moka p) c k)) k') (bucket_of (me_moka p) c k')"
    and "subseq (bucket_of (me_moka p) (moka_invalidate (me_moka p) c k) k')
           (if k' = k then [] else bucket_of (me_moka p) c k')"
    and "in_memory_refresh_policy (me_moka p) e q c = (r, e', c') \<Longrightarrow>
         subseq (bucket_of (me_moka p) c' k')
           (if k' = ime_key e then spec_refresh q (bucket_of (me_moka p) c k') else bucket_of (me_moka p) c k')"
    and "in_memory_finalize (me_moka p) f c = (x, f', c') \<Longrightarrow>
         subseq (bucket_of (me_moka p) c' k')
           (if k' = future_key f then spec_commit (future_variant f) (bucket_of (me_moka p) c k')
            else bucket_of (me_moka p) c k')"
proof -
  note laws = moka_lawsD [OF assms [unfolded mem_ok_def]]
  show "subseq (bucket_of (me_moka p) (snd (moka_get (me_moka p) c k)) k') (bucket_of (me_moka p) c k')"
    by (rule bucket_shrinks [OF laws(2)]) (simp add: bucket_of_def)
  show "subseq (bucket_of (me_moka p) (moka_invalidate (me_moka p) c k) k')
           (if k' = k then [] else bucket_of (me_moka p) c k')"
    by (rule bucket_shrinks [OF laws(5)]) (simp add: bucket_of_def)
  show "subseq (bucket_of (me_moka p) c' k')
     (if k' = ime_key e then spec_refresh q (bucket_of (me_moka p) c k') else bucket_of (me_moka p) c k')"
    if "in_memory_refresh_policy (me_moka p) e q c = (r, e', c')"
  proof -
    have c': "c' = moka_and_compute_with (me_moka p) c (ime_key e) (refresh_op q)"
      using that by (simp add: refresh_eq)
    show ?thesis
      unfolding c'
      by (rule bucket_shrinks [OF laws(4)])
         (simp add: compute_refresh_eq bucket_of_def split: option.split)
  qed
  show "subseq (bucket_of (me_moka p) c' k')
     (if k' = future_key f then spec_commit (future_variant f) (bucket_of (me_moka p) c k')
      else bucket_of (me_moka p) c k')"
    if "in_memory_finalize (me_moka p) f c = (x, f', c')"
  proof -
    have c': "c' = moka_and_upsert_with (me_moka p) c (future_key f)
        (\<lambda>m. spec_commit (future_variant f) (case m of None \<Rightarrow> [] | Some b \<Rightarrow> b))"
      using that by (auto simp: finalize_eq)
    show ?thesis
      unfolding c' by (rule bucket_shrinks [OF laws(3)]) (simp add: bucket_of_def)
  qed
qed

interpretation mem_store: streaming_storage mem_ok in_memory_storage_ops in_memory_put_ops
  ime_key ime_variant imp_buffer imp_key imp_policy future_key future_variant
proof (unfold_locales, goal_cases)
  case (1 p e)
  then show ?case by (simp add: in_memory_ops_simps)
next
  case (2 p e s k)
  then show ?case
    by (auto simp: in_memory_storage_ops_def in_memory_get_def split: prod.splits option.splits)
next
  case (3 p s k k')
  then show ?case using mem_bucket_laws(1) by (simp add: mem_get_snd)
next
  case (4 p s k pol k')
  then show ?case by (simp add: in_memory_storage_ops_def in_memory_put_def)
next
  case (5 p e s k')
  then show ?case by (simp add: in_memory_storage_ops_def in_memory_open_def Let_def)
next
  case (6 p s k k')
  then show ?case
    using mem_bucket_laws(2) [OF 6, of s k k'] by (simp add: mem_sel in_memory_invalidate_def split: if_splits)
next
  case (7 p e q s r e' s' k)
  then have r: "in_memory_refresh_policy (me_moka p) e q s = (r, e', s')"
    by (simp add: in_memory_storage_ops_def)
  from r mem_bucket_laws(3) [OF 7(1) r, of k] show ?case by (auto simp: refresh_eq)
next
  case (8 p f s r f' s' k)
  then have r: "in_memory_finalize (me_moka p) f s = (Ready r, f', s')"
    by (simp add: in_memory_put_ops_def)
  from mem_bucket_laws(4) [OF 8(1) r, of k] show ?case by (simp split: if_splits)
qed (auto simp: in_memory_put_ops_def in_memory_poll_write_def finalize_eq future_key_def
    future_variant_def in_memory_storage_ops_def in_memory_put_def)

lemma moka_losslessD:
  assumes "moka_lossless M keeps" and "keeps c"
  shows "keeps (snd (moka_get M c k))"
    and "moka_lookup M (snd (moka_get M c k)) k' = moka_lookup M c k'"
    and "keeps (moka_and_upsert_with M c k f)"
    and "moka_lookup M (moka_and_upsert_with M c k f) k' =
          (if k' = k then Some (f (moka_lookup M c k)) else moka_lookup M c k')"
    and "keeps (moka_and_compute_with M c k g)"
    and "moka_lookup M (moka_and_compute_with M c k g) k' =
          (if k' = k then (case g (moka_lookup M c k) of
                             Nop \<Rightarrow> moka_lookup M c k | PutValue v \<Rightarrow> Some v)
           else moka_lookup M c k')"
    and "keeps (moka_invalidate M c k)"
    and "moka_lookup M (moka_invalidate M c k) k' = (if k' = k then None else moka_lookup M c k')"
  using assms unfolding moka_lossless_def by blast+

lemma mem_apply:
  "apply_op (in_memory_storage_ops p) (in_memory_put_ops p) op c =
     (case op of
        OpGet k \<Rightarrow> snd (moka_get (me_moka p) c k)
      | OpInvalidate k \<Rightarrow> moka_invalidate (me_moka p) c k
      | OpRefresh e q \<Rightarrow> moka_and_compute_with (me_moka p) c (ime_key e) (refresh_op q)
      | OpPollFinalize f \<Rightarrow> moka_and_upsert_with (me_moka p) c (future_key f)
          (\<lambda>m. spec_commit (future_variant f) (case m of None \<Rightarrow> [] | Some b \<Rightarrow> b))
      | _ \<Rightarrow> c)"
  by (cases op)
     (simp_all add: mem_sel mem_get_snd in_memory_put_def in_memory_open_def in_memory_invalidate_def
       in_memory_put_ops_def refresh_eq finalize_eq Let_def)

lemma mem_lossless_storage: "cache_storage mem_lossless in_memory_storage_ops in_memory_put_ops
    ime_key ime_variant future_key future_variant"
  by (rule cache_storage_reindex [OF mem_store.cache_storage_axioms, where g = "\<lambda>p. p"])
     (simp add: mem_lossless_def mem_ok_def)

interpretation mem_exact: lossless_storage mem_lossless in_memory_storage_ops in_memory_put_ops
  ime_key ime_variant future_key future_variant me_keeps
proof (intro lossless_storage.intro mem_lossless_storage lossless_storage_axioms.intro, goal_cases)
  case (1 p s op)
  note laws = moka_losslessD [OF conjunct2 [OF 1(1) [unfolded mem_lossless_def]] 1(2)]
  show ?case unfolding mem_apply using 1(2) laws(1,3,5,7) by (simp split: store_op.split)
next
  case (2 p s op k)
  note laws = moka_losslessD [OF conjunct2 [OF 2(1) [unfolded mem_lossless_def]] 2(2)]
  show ?case
    unfolding mem_apply visible_in_memory
    by (cases op) (simp_all add: bucket_of_def laws(2,4,6,8) compute_refresh_eq split: option.split)
qed

subsection \<open>Replaying a stored body\<close>

text \<open>A read that panics does not occur; the reader of the contract treats it as pending.\<close>

definition replay_read ::
  "'h replay_body_source \<Rightarrow> nat \<Rightarrow> bytes io_result poll \<times> 'h replay_body_source" where
  "replay_read src n = (case replay_poll_read src n of Some x \<Rightarrow> x | None \<Rightarrow> (Pending, src))"

definition replay_remaining :: "'h replay_body_source \<Rightarrow> bytes" where
  "replay_remaining src = drop (rbs_position src) (rbs_body src)"

lemma replay_step:
  assumes "rbs_position src \<le> length (rbs_body src)"
  obtains src' where "replay_poll_read src n = Some (Ready (Inr (take n (replay_remaining src))), src')"
    and "replay_remaining src' = drop n (replay_remaining src)"
    and "rbs_position src' \<le> length (rbs_body src')"
proof (cases "length (rbs_body src) - rbs_position src \<le> n")
  case True
  then show ?thesis
    using assms that by (auto simp: replay_poll_read_def replay_remaining_def Let_def min_def)
next
  case False
  then show ?thesis
    using assms that [of "if 0 < n then src\<lparr>rbs_position := rbs_position src + n\<rparr> else src"]
    by (cases "0 < n") (auto simp: replay_poll_read_def replay_remaining_def Let_def min_def add.commute)
qed

lemma replay_poll_read_None:
  "replay_poll_read src n = None \<longleftrightarrow> length (rbs_body src) < rbs_position src"
  by (simp add: replay_poll_read_def Let_def)

lemma replay_read_cases:
  obtains src' where "replay_read src n = (Ready (Inr (take n (replay_remaining src))), src')"
      and "replay_remaining src' = drop n (replay_remaining src)"
  | "replay_read src n = (Pending, src)"
proof (cases "rbs_position src \<le> length (rbs_body src)")
  case True
  then obtain src' where "replay_poll_read src n = Some (Ready (Inr (take n (replay_remaining src))), src')"
    "replay_remaining src' = drop n (replay_remaining src)"
    by (rule replay_step)
  then show ?thesis using that(1) by (simp add: replay_read_def)
next
  case False
  then have "replay_poll_read src n = None" using replay_poll_read_None [of src n] by simp
  then show ?thesis using that(2) by (simp add: replay_read_def)
qed

interpretation replay: byte_source replay_read replay_remaining
proof (unfold_locales, goal_cases)
  case (1 u n bs u')
  then show ?case by (cases rule: replay_read_cases [of u n]) auto
next
  case (2 u n u')
  then show ?case by (cases rule: replay_read_cases [of u n]) auto
next
  case (3 u n e u')
  then show ?case by (cases rule: replay_read_cases [of u n]) auto
qed

text \<open>Successive reads with buffers of the given sizes; \<open>None\<close> if one of them panics.\<close>

fun replay_reads :: "'h replay_body_source \<Rightarrow> nat list \<Rightarrow> (bytes \<times> 'h replay_body_source) option" where
  "replay_reads src [] = Some ([], src)"
| "replay_reads src (n # ns) =
     (case replay_poll_read src n of
        Some (Ready (Inr bs), src') \<Rightarrow> map_option (\<lambda>(rest, s). (bs @ rest, s)) (replay_reads src' ns)
      | _ \<Rightarrow> None)"

lemma replay_reads_eq:
  assumes "rbs_position src \<le> length (rbs_body src)"
  shows "map_option fst (replay_reads src ns) = Some (take (sum_list ns) (replay_remaining src))"
  using assms
proof (induction ns arbitrary: src)
  case Nil
  then show ?case by simp
next
  case (Cons n ns)
  from Cons.prems obtain src' where
    "replay_poll_read src n = Some (Ready (Inr (take n (replay_remaining src))), src')"
    "replay_remaining src' = drop n (replay_remaining src)"
    "rbs_position src' \<le> length (rbs_body src')"
    by (rule replay_step)
  then show ?case
    using Cons.IH [of src']
    by (cases "replay_reads src' ns") (auto simp: take_add)
qed

subsection \<open>A map for the witnesses\<close>

definition ref_moka :: "(cache_key \<Rightarrow> 'v option, unit, 'v) moka" where
  "ref_moka =
     \<lparr>moka_builder = (\<lambda>w. ()), moka_max_capacity = (\<lambda>b n. b), moka_time_to_idle = (\<lambda>b n. b),
      moka_time_to_live = (\<lambda>b n. b), moka_build = (\<lambda>b k. None),
      moka_get = (\<lambda>c k. (c k, c)),
      moka_and_upsert_with = (\<lambda>c k f. c(k := Some (f (c k)))),
      moka_and_compute_with = (\<lambda>c k f. case f (c k) of Nop \<Rightarrow> c | PutValue v \<Rightarrow> c(k := Some v)),
      moka_invalidate = (\<lambda>c k. c(k := None))\<rparr>"

definition ref_mem_env ::
  "(cache_key \<Rightarrow> hmap bucket option, unit, hmap, hmap replay_body_source) mem_env" where
  "ref_mem_env = \<lparr>me_moka = ref_moka, me_new_body = (\<lambda>src len. src), me_keeps = (\<lambda>c. True)\<rparr>"

lemma ref_mem_lossless: "mem_lossless ref_mem_env"
  by (auto simp: mem_lossless_def moka_laws_def moka_lossless_def ref_mem_env_def ref_moka_def
      split: moka_op.split)

lemma ref_mem_ok: "mem_ok ref_mem_env"
  using ref_mem_lossless by (simp add: mem_lossless_def mem_ok_def)

definition ref_key :: cache_key where
  "ref_key = cache_key_new Get ''http://h/a''"

definition ref_future :: "hmap in_memory_future" where
  "ref_future = (\<lparr>imp_key = ref_key, imp_policy = ref_policy ''max-age=600'' 0, imp_buffer = [104, 105]\<rparr>, None)"

subsection \<open>Properties\<close>

lemma weigh_total:
  assumes "sum_list (map (\<lambda>v. length (v_body v)) bucket) < 2 ^ 64"
  shows "unat (sum_list (map (\<lambda>v. word_of_nat (length (v_body v))) bucket) :: u64)
           = sum_list (map (\<lambda>v. length (v_body v)) bucket)"
  using assms
proof (induction bucket)
  case Nil
  then show ?case by simp
next
  case (Cons v bucket)
  then have "unat (word_of_nat (length (v_body v)) :: u64) = length (v_body v)"
    by (simp add: unat_of_nat_u64)
  then show ?case
    using Cons unat_add_u64 [of "word_of_nat (length (v_body v))"
        "sum_list (map (\<lambda>v. word_of_nat (length (v_body v))) bucket)"] by simp
qed

lemma build_cache_empty:
  assumes "mem_ok p"
  shows "visible (in_memory_storage_ops p) ime_variant (build_cache (me_moka p) cap tti ttl) k = []"
  using moka_lawsD(1) [OF assms [unfolded mem_ok_def]]
  by (simp add: build_cache_def bucket_of_def Let_def)

text \<open>
  C7: whatever operations a storage built by any configuration has seen, and whatever it has
  evicted, each entry a lookup returns has the body and trailers of a put finalized under
  that key and not invalidated since, its policy is that of the put or of a later refresh of
  the same variant, and no two entries of a key have the same \<open>Vary\<close> signature.
\<close>

theorem in_memory_lookup_sound:
  assumes "mem_ok p" and "store_reach (in_memory_storage_ops p) (in_memory_put_ops p) ime_variant
      (build_cache (me_moka p) cap tti ttl) ops c"
    and "e \<in> set (fst (in_memory_get (me_moka p) c k))"
  shows "committed ime_key future_key future_variant ops k (ime_variant e) \<and>
     distinct (map (\<lambda>e. vary_snapshot (in_memory_policy e)) (fst (in_memory_get (me_moka p) c k)))"
proof -
  let ?v = "visible (in_memory_storage_ops p) ime_variant c k"
  have v: "?v = map ime_variant (fst (in_memory_get (me_moka p) c k))"
    by (simp only: visible_def in_memory_storage_ops_def storage.simps)
  note empty = build_cache_empty [OF assms(1), of cap tti ttl]
  have "ime_variant e \<in> set ?v" using assms(3) v by simp
  from mem_store.reach_origin [OF assms(2,1) empty this]
  have "committed ime_key future_key future_variant ops k (ime_variant e)" .
  moreover have "distinct_variants ?v"
    using mem_store.reach_distinct [OF assms(2,1), of k] empty by (simp add: distinct_variants_def)
  ultimately show ?thesis
    by (simp add: v distinct_variants_def in_memory_policy_def o_def del: visible_in_memory)
qed

theorem in_memory_lookup_sound_witness:
  "\<exists>e. e \<in> set (fst (in_memory_get (me_moka ref_mem_env)
         (apply_op (in_memory_storage_ops ref_mem_env) (in_memory_put_ops ref_mem_env)
            (OpPollFinalize ref_future) (build_cache (me_moka ref_mem_env) None None None)) ref_key)) \<and>
     committed (ime_key :: hmap in_memory_entry \<Rightarrow> cache_key) future_key future_variant
       [OpPollFinalize ref_future] ref_key (ime_variant e)"
proof -
  let ?S = "in_memory_storage_ops ref_mem_env" and ?P = "in_memory_put_ops ref_mem_env"
  let ?c = "apply_op ?S ?P (OpPollFinalize ref_future) (build_cache (me_moka ref_mem_env) None None None)"
  have r: "store_reach ?S ?P ime_variant (build_cache (me_moka ref_mem_env) None None None)
      [OpPollFinalize ref_future] ?c"
    by (intro store_reach.intros)
  have "fst (in_memory_get (me_moka ref_mem_env) ?c ref_key) \<noteq> []"
    by (simp add: mem_apply build_cache_def ref_mem_env_def ref_moka_def in_memory_get_def
        spec_commit_def ref_future_def future_key_def del: apply_op.simps)
  then obtain e where e: "e \<in> set (fst (in_memory_get (me_moka ref_mem_env) ?c ref_key))"
    by (metis list.set_intros(1) neq_Nil_conv)
  show ?thesis
    by (rule exI [of _ e], rule conjI [OF e], rule conjunct1 [OF in_memory_lookup_sound [OF ref_mem_ok r e]])
qed

text \<open>
  C9: with neither a capacity nor a lifetime configured nothing is lost. The storage then
  refines the specification of variant lists: after any sequence of operations a lookup shows
  exactly what commits, refreshes and invalidations of that key make of an empty list.
\<close>

theorem in_memory_refines:
  assumes "mem_lossless p"
  shows "visible (in_memory_storage_ops p) ime_variant
      (foldl (\<lambda>c op. apply_op (in_memory_storage_ops p) (in_memory_put_ops p) op c)
         (build_cache (me_moka p) None None None) ops) k
      = foldl (\<lambda>vs op. op_effect ime_key future_key future_variant op k vs) [] ops"
proof -
  have "me_keeps p (build_cache (me_moka p) None None None)"
    using assms by (simp add: build_cache_def mem_lossless_def moka_lossless_def)
  moreover have "visible (in_memory_storage_ops p) ime_variant (build_cache (me_moka p) None None None) k = []"
    using assms moka_lawsD(1) by (fastforce simp: build_cache_def bucket_of_def mem_lossless_def)
  ultimately show ?thesis using mem_exact.refines_spec [OF assms] by metis
qed

theorem in_memory_refines_witness:
  "visible (in_memory_storage_ops ref_mem_env) ime_variant
      (foldl (\<lambda>c op. apply_op (in_memory_storage_ops ref_mem_env) (in_memory_put_ops ref_mem_env) op c)
         (build_cache (me_moka ref_mem_env) None None None) [OpPollFinalize ref_future, OpGet ref_key]) ref_key
     = [future_variant ref_future]"
  unfolding in_memory_refines [OF ref_mem_lossless]
  by (simp add: spec_commit_def future_key_def ref_future_def)

text \<open>
  C26: an opened entry replays the stored body. Reads with buffers of any sizes never panic
  and give the stored bytes in order, all of them once the buffers add up to the length; the
  stored trailers are handed out once.
\<close>

theorem replay_yields_body:
  assumes "in_memory_open (\<lambda>src len. src) e c = (Inr src, c')"
  shows "\<exists>src'. replay_reads src ns = Some (take (sum_list ns) (v_body (ime_variant e)), src') \<and>
     fst (replay_trailers src) = v_trailers (ime_variant e) \<and>
     fst (replay_trailers (snd (replay_trailers src))) = None"
proof -
  have src: "src = \<lparr>rbs_body = v_body (ime_variant e), rbs_position = 0,
                    rbs_trailers = v_trailers (ime_variant e)\<rparr>"
    using assms by (simp add: in_memory_open_def Let_def)
  have "map_option fst (replay_reads src ns) = Some (take (sum_list ns) (v_body (ime_variant e)))"
    using replay_reads_eq [of src ns] src by (simp add: replay_remaining_def)
  then show ?thesis using src by (auto simp: replay_trailers_def)
qed

theorem replay_yields_body_witness:
  "\<exists>src'. replay_reads \<lparr>rbs_body = [1, 2, 3], rbs_position = 0, rbs_trailers = (None :: hmap option)\<rparr> [2, 5]
     = Some ([1, 2, 3], src')"
  using replay_yields_body [of "\<lparr>ime_variant = \<lparr>v_policy = ref_policy ''max-age=600'' 0,
      v_body = [1, 2, 3], v_trailers = None\<rparr>, ime_key = ref_key\<rparr>" "()" _ "()" "[2, 5]"]
  by (auto simp: in_memory_open_def Let_def)

text \<open>
  The weight of a bucket is the total length of its bodies, capped at the largest
  \<open>u32\<close>.
\<close>

theorem weigh_bucket_saturates:
  assumes "sum_list (map (\<lambda>v. length (v_body v)) bucket) < 2 ^ 64"
  shows "unat (weigh_bucket k bucket) = min (sum_list (map (\<lambda>v. length (v_body v)) bucket)) (2 ^ 32 - 1)"
proof (cases "sum_list (map (\<lambda>v. length (v_body v)) bucket) < 2 ^ 32")
  case True
  then show ?thesis
    by (simp add: weigh_bucket_def Let_def weigh_total [OF assms] unat_of_nat)
next
  case False
  then have "weigh_bucket k bucket = - 1"
    by (simp add: weigh_bucket_def Let_def weigh_total [OF assms])
  moreover have "unat (- 1 :: u32) = 2 ^ 32 - 1" by code_simp
  ultimately show ?thesis using False by simp
qed

theorem weigh_bucket_saturates_witness:
  "unat (weigh_bucket ref_key [future_variant ref_future]) = min 2 (2 ^ 32 - 1)"
  using weigh_bucket_saturates [of "[future_variant ref_future]" ref_key]
  by (simp add: future_variant_def ref_future_def)

end
