(* ===== verification/Streaming.thy ===== *)
theory Streaming
  imports Tee Memory
begin

section \<open>Streaming a response into the storage\<close>

text \<open>
  The properties of the teeing reader for every put handle and upstream body that keep their
  contracts, and what reading a response to its end leaves in the in-memory storage.
\<close>

text \<open>An upstream that is always ready, and a put handle, for the witnesses.\<close>

definition ref_body_ops :: "(hmap, bytes) body_ops" where
  "ref_body_ops =
     \<lparr>body_poll_read = (\<lambda>u n. (Ready (Inr (take n u)), drop n u)),
      body_trailers = (\<lambda>u. (None, u))\<rparr>"

definition ref_handle :: "hmap in_memory_put_handle" where
  "ref_handle = \<lparr>imp_key = ref_key, imp_policy = ref_policy ''max-age=600'' 0, imp_buffer = []\<rparr>"

lemma ref_body_source: "byte_source (body_poll_read ref_body_ops) id"
  by unfold_locales (auto simp: ref_body_ops_def)

lemma ref_body_trailers: "\<forall>u. id (snd (body_trailers ref_body_ops u)) = id u"
  by (simp add: ref_body_ops_def)

text \<open>The always ready reads of an upstream, and the loop that reads a tee to its end.\<close>

definition always_ready :: "('h, 'u) body_ops \<Rightarrow> bool" where
  "always_ready B \<longleftrightarrow> (\<forall>u n. \<exists>bs u'. body_poll_read B u n = (Ready (Inr bs), u'))"

partial_function (option) tee_read_to_end ::
  "('h, 'u) body_ops \<Rightarrow> ('h, 's, 'w, 'f) put_handle \<Rightarrow> nat \<Rightarrow> ('h, 'u, 'w, 'f) teeing_reader \<Rightarrow> 's \<Rightarrow>
   (bytes io_result \<times> ('h, 'u, 'w, 'f) teeing_reader \<times> 's) option" where
  "tee_read_to_end B P n t s =
     (case tee_poll_read B P t n s of
        None \<Rightarrow> None
      | Some (Pending, t, s) \<Rightarrow> tee_read_to_end B P n t s
      | Some (Ready (Inl e), t, s) \<Rightarrow> Some (Inl e, t, s)
      | Some (Ready (Inr bs), t, s) \<Rightarrow>
          if bs = [] then Some (Inr [], t, s)
          else do {
            (r, t, s) \<leftarrow> tee_read_to_end B P n t s;
            Some (map_sum id (\<lambda>rest. bs @ rest) r, t, s) })"

subsection \<open>Reading a tee over the in-memory handle\<close>

lemma mem_poll_chunk:
  assumes "tee_state t = Active w" and "tee_pending t = []"
    and "body_poll_read B (tee_upstream t) n = (Ready (Inr bs), u)" and "bs \<noteq> []" and "length bs \<le> n"
    and "n < 2 ^ 64" and "unat (tee_bytes_written t) + length bs \<le> unat (tee_cap t)"
  shows "\<exists>t'. tee_poll_read B (in_memory_put_ops p) t n s = Some (Ready (Inr bs), t', s) \<and>
     tee_state t' = Active (w\<lparr>imp_buffer := imp_buffer w @ bs\<rparr>) \<and> tee_pending t' = [] \<and>
     tee_upstream t' = u \<and> tee_cap t' = tee_cap t \<and>
     unat (tee_bytes_written t') = unat (tee_bytes_written t) + length bs"
proof -
  let ?bw = "tee_bytes_written t" and ?l = "word_of_nat (length bs) :: u64"
  have l: "unat ?l = length bs" using assms(5,6) by (simp add: unat_of_nat_u64)
  have lt: "unat ?bw + unat ?l < 2 ^ 64"
    using assms(7) l unat_u64_less [of "tee_cap t"] by simp
  then have add: "unat (?bw + ?l) = unat ?bw + length bs" using l unat_add_u64 by metis
  then have "\<not> tee_cap t < u64_saturating_add ?bw ?l"
    using lt assms(7) by (simp add: u64_saturating_add_def word_less_nat_alt)
  then show ?thesis
    using assms lt add
    by (simp add: tee_poll_read_def drive_finalize_def is_done_def drain_Nil tee_chunk_def
        in_memory_put_ops_def in_memory_poll_write_def Let_def u64_checked_add_def)
qed

lemma mem_poll_eof:
  assumes "tee_state t = Active w" and "tee_pending t = []"
    and "body_poll_read B (tee_upstream t) n = (Ready (Inr []), u)"
  shows "\<exists>t'. tee_poll_read B (in_memory_put_ops p) t n s =
       Some (Ready (Inr []), t', snd (snd (in_memory_finalize (me_moka p) (w, fst (body_trailers B u)) s))) \<and>
     tee_state t' = Done \<and> tee_trailers t' = fst (body_trailers B u)"
  using assms
  by (simp add: tee_poll_read_def drive_finalize_def is_done_def drain_Nil tee_eof_def
      in_memory_put_ops_def finalize_eq split: prod.split)

lemma mem_read_to_end:
  assumes "byte_source (body_poll_read B) rem" and "always_ready B" and "0 < n" and "n < 2 ^ 64"
    and "tee_state t = Active w" and "tee_pending t = []"
    and "unat (tee_bytes_written t) + length (rem (tee_upstream t)) \<le> unat (tee_cap t)"
  shows "\<exists>t' tr. tee_read_to_end B (in_memory_put_ops p) n t s =
       Some (Inr (rem (tee_upstream t)), t',
         snd (snd (in_memory_finalize (me_moka p)
           (w\<lparr>imp_buffer := imp_buffer w @ rem (tee_upstream t)\<rparr>, tr) s))) \<and>
     tee_state t' = Done \<and> tee_trailers t' = tr"
  using assms(5-7)
proof (induction "length (rem (tee_upstream t))" arbitrary: t w rule: less_induct)
  case less
  obtain bs u where rd: "body_poll_read B (tee_upstream t) n = (Ready (Inr bs), u)"
    using assms(2) unfolding always_ready_def by blast
  note ro = byte_source.read_ok [OF assms(1) rd]
  show ?case
  proof (cases "bs = []")
    case True
    then have "rem (tee_upstream t) = []" using ro assms(3) by blast
    then show ?thesis
      using mem_poll_eof [OF less.prems(1,2) rd [unfolded True], of p s]
      by (auto simp: tee_read_to_end.simps [of B _ n t s])
  next
    case False
    have "length bs \<le> length (rem (tee_upstream t))" using ro by simp
    then obtain t' where t': "tee_poll_read B (in_memory_put_ops p) t n s = Some (Ready (Inr bs), t', s)"
      "tee_state t' = Active (w\<lparr>imp_buffer := imp_buffer w @ bs\<rparr>)" "tee_pending t' = []"
      "tee_upstream t' = u" "tee_cap t' = tee_cap t"
      "unat (tee_bytes_written t') = unat (tee_bytes_written t) + length bs"
      using mem_poll_chunk [OF less.prems(1,2) rd False _ assms(4)] ro less.prems(3) by fastforce
    have "length (rem (tee_upstream t')) < length (rem (tee_upstream t))"
      using ro False t'(4) by simp
    from less.hyps [OF this t'(2,3)] ro t' less.prems(3) False
    show ?thesis by (auto simp: tee_read_to_end.simps [of B _ n t s])
  qed
qed

text \<open>Reading a tee over a fresh handle to its end commits the body.\<close>

lemma mem_tee_commits:
  assumes "mem_lossless p" and "me_keeps p s"
    and "byte_source (body_poll_read B) rem" and "always_ready B" and "0 < n" and "n < 2 ^ 64"
    and "length (rem u) \<le> unat cap"
  shows "\<exists>t' s'. tee_read_to_end B (in_memory_put_ops p) n
         (tee_new u \<lparr>imp_key = k, imp_policy = pol, imp_buffer = []\<rparr> cap) s = Some (Inr (rem u), t', s') \<and>
     (\<forall>k'. visible (in_memory_storage_ops p) ime_variant s' k' =
        (let vs = visible (in_memory_storage_ops p) ime_variant s k'
         in if k' = k then spec_commit \<lparr>v_policy = pol, v_body = rem u, v_trailers = tee_trailers t'\<rparr> vs else vs))"
proof -
  let ?w = "\<lparr>imp_key = k, imp_policy = pol, imp_buffer = []\<rparr>"
  obtain t' tr where r: "tee_read_to_end B (in_memory_put_ops p) n (tee_new u ?w cap) s =
      Some (Inr (rem u), t', snd (snd (in_memory_finalize (me_moka p)
        (\<lparr>imp_key = k, imp_policy = pol, imp_buffer = rem u\<rparr>, tr) s)))" and tr: "tee_trailers t' = tr"
    using mem_read_to_end [OF assms(3-6), of "tee_new u ?w cap" ?w p s] assms(7)
    by (auto simp: tee_new_def)
  let ?f = "(\<lparr>imp_key = k, imp_policy = pol, imp_buffer = rem u\<rparr>, tr)"
  have "snd (snd (in_memory_finalize (me_moka p) ?f s))
      = apply_op (in_memory_storage_ops p) (in_memory_put_ops p) (OpPollFinalize ?f) s"
    by (simp add: in_memory_put_ops_def)
  then show ?thesis
    using r tr mem_exact.exact_law [OF assms(1,2), of "OpPollFinalize ?f"]
    by (auto simp: Let_def future_key_def future_variant_def)
qed

subsection \<open>Properties\<close>

text \<open>
  C1: the storage receives the whole body or nothing. Whatever the put handle does (short
  writes, pending writes, errors) and however the polls interleave with other tasks, a poll
  with room in its buffer changes the storage only by polling a finalize of exactly the complete upstream body, under
  the key and policy of the handle, after all of it was delivered to the reader, and only if
  the body fits the cap.
\<close>

theorem tee_all_or_nothing:
  assumes "put_writer ok P content wk wp fk fv" and "ok p"
    and "byte_source (body_poll_read B) rem" and "\<forall>u. rem (snd (body_trailers B u)) = rem u"
    and "content w = []" and "tee_reach B (P p) (tee_new u w cap) d t"
    and "0 < n" and "n < 2 ^ 64" and "tee_poll_read B (P p) t n s = Some (r, t', s')"
  shows "s' = s \<or>
     d = rem u \<and> length (rem u) \<le> unat cap \<and>
     (\<exists>f. fk f = wk w \<and> v_policy (fv f) = wp w \<and> v_body (fv f) = rem u \<and>
          s' = snd (snd (poll_finalize (P p) f s)))"
proof -
  note tr = assms(4) [rule_format]
  note inv = put_writer.reach_inv [OF assms(1) assms(6) assms(2,3) tr assms(5) refl refl]
  from put_writer.poll_inv [OF assms(1) assms(2,3) tr inv assms(7-9)] show ?thesis
    by (auto simp: tee_storage_step_def commits_def)
qed

theorem tee_all_or_nothing_witness:
  "\<exists>r t' s' f. tee_poll_read ref_body_ops (in_memory_put_ops ref_mem_env)
         (tee_new [] ref_handle 100) 8 (\<lambda>k. None) = Some (r, t', s') \<and> s' ref_key \<noteq> None \<and>
     v_body (future_variant f) = [] \<and> s' = snd (snd (poll_finalize (in_memory_put_ops ref_mem_env) f (\<lambda>k. None)))"
proof -
  let ?P = "in_memory_put_ops ref_mem_env" and ?t = "tee_new [] ref_handle 100"
  obtain t' where p: "tee_poll_read ref_body_ops ?P ?t 8 (\<lambda>k. None) = Some (Ready (Inr []), t',
      snd (snd (in_memory_finalize (me_moka ref_mem_env) (ref_handle, None) (\<lambda>k. None))))"
    using mem_poll_eof [of ?t ref_handle ref_body_ops 8 "[]" ref_mem_env "\<lambda>k. None"]
    by (auto simp: tee_new_def ref_body_ops_def)
  have new: "snd (snd (in_memory_finalize (me_moka ref_mem_env) (ref_handle, None) (\<lambda>k. None))) ref_key \<noteq> None"
    by (simp add: finalize_eq ref_mem_env_def ref_moka_def future_key_def ref_handle_def)
  have "imp_buffer ref_handle = []" by (simp add: ref_handle_def)
  from tee_all_or_nothing [OF mem_store.put_writer_axioms ref_mem_ok ref_body_source ref_body_trailers
      this tee_reach.start _ _ p] p new
  show ?thesis by fastforce
qed

text \<open>
  C17: the reader of a tee sees the upstream body unchanged, however the storage behaves,
  as long as it reads into buffers with room: what
  has been delivered is a prefix of the upstream body, end of file is reported only after all
  of it, and an error is reported only when the upstream reports it.
\<close>

theorem tee_transparent:
  assumes "put_writer ok P content wk wp fk fv" and "ok p"
    and "byte_source (body_poll_read B) rem" and "\<forall>u. rem (snd (body_trailers B u)) = rem u"
    and "content w = []" and "tee_reach B (P p) (tee_new u w cap) d t"
    and "0 < n" and "n < 2 ^ 64" and "tee_poll_read B (P p) t n s = Some (r, t', s')"
  shows "(\<exists>rest. rem u = d @ delivered r @ rest) \<and>
     (r = Ready (Inr []) \<longrightarrow> d = rem u) \<and>
     (\<forall>e. r = Ready (Inl e) \<longrightarrow> fst (body_poll_read B (tee_upstream t) n) = Ready (Inl e))"
proof -
  note tr = assms(4) [rule_format]
  note inv = put_writer.reach_inv [OF assms(1) assms(6) assms(2,3) tr assms(5) refl refl]
  note step = put_writer.poll_inv [OF assms(1) assms(2,3) tr inv assms(7-9)]
  from tee_inv_source [OF conjunct1 [OF step]] have "\<exists>rest. rem u = d @ delivered r @ rest" by auto
  with step show ?thesis by blast
qed

theorem tee_transparent_witness:
  "\<exists>r t' s' rest. tee_poll_read ref_body_ops (in_memory_put_ops ref_mem_env)
         (tee_new [104, 105] ref_handle 100) 8 (\<lambda>k. None) = Some (r, t', s') \<and>
     id [104, 105] = delivered r @ rest"
proof -
  let ?P = "in_memory_put_ops ref_mem_env" and ?t = "tee_new [104, 105] ref_handle 100"
  have "tee_poll_read ref_body_ops ?P ?t 8 (\<lambda>k. None) \<noteq> None"
    by (rule put_writer.poll_total [OF mem_store.put_writer_axioms ref_mem_ok ref_body_source])
       (simp_all add: tee_new_def)
  then obtain r t' s' where p: "tee_poll_read ref_body_ops ?P ?t 8 (\<lambda>k. None) = Some (r, t', s')"
    by auto
  have "imp_buffer ref_handle = []" by (simp add: ref_handle_def)
  from tee_transparent [OF mem_store.put_writer_axioms ref_mem_ok ref_body_source ref_body_trailers
      this tee_reach.start _ _ p] p
  show ?thesis by auto
qed

text \<open>
  C29: reading through the tee never panics, if the cap is below the largest \<open>u64\<close>: no slice
  is out of range, and the byte counter does not overflow.
\<close>

theorem tee_no_panic:
  assumes "put_writer ok P content wk wp fk fv" and "ok p"
    and "byte_source (body_poll_read B) rem" and "n < 2 ^ 64" and "tee_cap t < - 1"
  shows "tee_poll_read B (P p) t n s \<noteq> None"
  using put_writer.poll_total [OF assms] .

theorem tee_no_panic_witness:
  "tee_poll_read ref_body_ops (in_memory_put_ops ref_mem_env)
     (tee_new [1] ref_handle 100) 8 (\<lambda>k. None) \<noteq> None"
  by (rule tee_no_panic [OF mem_store.put_writer_axioms ref_mem_ok ref_body_source])
     (simp_all add: tee_new_def)

text \<open>
  Once a tee has given up on its put handle it never touches the storage again and
  passes every read of the upstream through; it also never takes the upstream trailers, so
  the reader's \<open>trailers\<close> stay what they were at the abort.
\<close>

theorem tee_aborted_passes_through:
  assumes "tee_state t = Aborted" and "tee_poll_read B P t n s = Some (r, t', s')"
  shows "tee_state t' = Aborted \<and> s' = s \<and> body_poll_read B (tee_upstream t) n = (r, tee_upstream t') \<and>
     fst (tee_take_trailers t') = fst (tee_take_trailers t)"
  using tee_aborted [OF assms] by (simp add: tee_take_trailers_def)

theorem tee_aborted_passes_through_witness:
  "\<exists>r t' s'. tee_poll_read ref_body_ops (in_memory_put_ops ref_mem_env)
       (tee_abort (tee_new [] ref_handle 100)) 8 (\<lambda>k. None) = Some (r, t', s') \<and>
     fst (tee_take_trailers t') = None"
proof -
  let ?P = "in_memory_put_ops ref_mem_env" and ?t = "tee_abort (tee_new [] ref_handle 100)"
  have "tee_poll_read ref_body_ops ?P ?t 8 (\<lambda>k. None) \<noteq> None"
    by (rule put_writer.poll_total [OF mem_store.put_writer_axioms ref_mem_ok ref_body_source])
       (simp_all add: tee_new_def tee_abort_def)
  then obtain r t' s' where p: "tee_poll_read ref_body_ops ?P ?t 8 (\<lambda>k. None) = Some (r, t', s')"
    by auto
  have "tee_state ?t = Aborted" by (simp add: tee_abort_def)
  from tee_aborted_passes_through [OF this p] p show ?thesis
    by (simp add: tee_take_trailers_def tee_abort_def tee_new_def)
qed

end
