(* ===== verification/Client.thy ===== *)
theory Client
  imports Handler Streaming
begin

section \<open>The client-side handler (\<open>src/client.rs\<close>)\<close>

text \<open>
  The handler is a function on the connection and the storage, and a list of the background
  tasks it spawns; \<open>None\<close> is a panic. The clock is an argument, one for each call of
  \<open>SystemTime::now()\<close> that the handler makes in turn. Awaiting a future is a
  \<open>partial_function\<close> that polls until it is ready, so a future that is never ready is \<open>None\<close>.
  \<open>Client::build_conn\<close> and awaiting a connection, the network exchange, are parameters.
\<close>

record ('h, 'b, 'w, 'f, 'e) client_conn = "('h, 'b, 'w, 'f, 'e) conn" +
  conn_url :: url
  conn_error :: "string option"

record ('h, 'e) background_task =
  bg_method :: http_method
  bg_url :: url
  bg_request_headers :: 'h
  bg_stored :: 'e
  bg_key :: cache_key

record ('h, 'b, 'w, 'f, 'e) client_ops =
  client_build_conn :: "http_method \<Rightarrow> url \<Rightarrow> ('h, 'b, 'w, 'f, 'e) client_conn"
  client_send :: "('h, 'b, 'w, 'f, 'e) client_conn \<Rightarrow> string + ('h, 'b, 'w, 'f, 'e) client_conn"

subsection \<open>Before the request\<close>

definition serve_stale ::
  "'h ext \<Rightarrow> ('h, 's, 'e, 'w, 'b) storage \<Rightarrow> ('h, 'b, 'w, 'f, 'e) client_conn \<Rightarrow> 'e \<Rightarrow> system_time \<Rightarrow> 's \<Rightarrow>
   (unit io_result \<times> ('h, 'b, 'w, 'f, 'e) client_conn \<times> 's) option" where
  "serve_stale E S c stored now s =
     do {
       cached \<leftarrow> cached_response E (entry_policy S stored) now;
       (case entry_open S stored s of
          (Inl e, s) \<Rightarrow> Some (Inl e, c, s)
        | (Inr body, s) \<Rightarrow>
            Some (Inr (), c\<lparr>conn_status := Some (cr_status cached),
                            conn_response_headers := cr_headers cached,
                            conn_response_body := Some (PlainBody body)\<rparr>, s)) }"

definition spawn_background_revalidation ::
  "('h, 'b, 'w, 'f, 'e) client_conn \<Rightarrow> 'e \<Rightarrow> cache_key \<Rightarrow> 'h \<Rightarrow> ('h, 'e) background_task" where
  "spawn_background_revalidation c stored key request_hs =
     \<lparr>bg_method = conn_method c, bg_url = conn_url c, bg_request_headers = request_hs,
      bg_stored = stored, bg_key = key\<rparr>"

fun run_candidates ::
  "'h ext \<Rightarrow> ('h, 's, 'e, 'w, 'b) storage \<Rightarrow> cache_key \<Rightarrow> system_time \<Rightarrow> ('h, 'b, 'w, 'f, 'e) client_conn \<Rightarrow>
   'e list \<Rightarrow> 's \<Rightarrow> (('h, 'b, 'w, 'f, 'e) client_conn \<times> 's \<times> ('h, 'e) background_task list) option" where
  "run_candidates E S key now c [] s = Some (c\<lparr>conn_state := Some (Miss key)\<rparr>, s, [])"
| "run_candidates E S key now c (entry # entries) s =
     (case before_request E (entry_policy S entry) (conn_request_headers c) now of
        None \<Rightarrow> None
      | Some (Fresh cached) \<Rightarrow>
          (let c = c\<lparr>conn_response_headers := cr_headers cached\<rparr>
           in case entry_open S entry s of
                (Inl e, s) \<Rightarrow> Some (c, s, [])
              | (Inr body, s) \<Rightarrow>
                  Some (c\<lparr>conn_status := Some (cr_status cached),
                          conn_response_body := Some (PlainBody body),
                          conn_halted := True, conn_state := Some Hit\<rparr>, s, []))
      | Some (ServeNotModified cached) \<Rightarrow>
          Some (c\<lparr>conn_response_headers := cr_headers cached,
                  conn_status := Some (cr_status cached),
                  conn_response_body := Some EmptyBody,
                  conn_halted := True, conn_state := Some Hit\<rparr>, s, [])
      | Some (Stale request_hs True) \<Rightarrow>
          (case is_swr_eligible E (entry_policy S entry) now of
             None \<Rightarrow> None
           | Some True \<Rightarrow>
               (let task = spawn_background_revalidation c entry key request_hs
                in case serve_stale E S c entry now s of
                     None \<Rightarrow> None
                   | Some (Inr _, c, s) \<Rightarrow>
                       Some (c\<lparr>conn_halted := True, conn_state := Some Hit\<rparr>, s, [task])
                   | Some (Inl e, c, s) \<Rightarrow> Some (c, s, [task]))
           | Some False \<Rightarrow>
               Some (c\<lparr>conn_request_headers := request_hs,
                       conn_state := Some (Revalidation entry key)\<rparr>, s, []))
      | Some (Stale _ False) \<Rightarrow> run_candidates E S key now c entries s)"

definition client_run ::
  "'h ext \<Rightarrow> ('h, 's, 'e, 'w, 'b) storage \<Rightarrow> system_time \<Rightarrow> ('h, 'b, 'w, 'f, 'e) client_conn \<Rightarrow> 's \<Rightarrow>
   (('h, 'b, 'w, 'f, 'e) client_conn \<times> 's \<times> ('h, 'e) background_task list) option" where
  "client_run E S now c s =
     (let key = cache_key_new (conn_method c) (conn_url c)
      in if \<not> method_is_safe E (conn_method c)
         then Some (c\<lparr>conn_state := Some (Unsafe (conn_url c))\<rparr>, s, [])
         else let (entries, s) = storage_get S s key
              in run_candidates E S key now c entries s)"

subsection \<open>After the response\<close>

definition client_handle_miss ::
  "'h ext \<Rightarrow> ('h, 's, 'e, 'w, 'b) storage \<Rightarrow> ('h, 'b, 'w, 'f) served_ops \<Rightarrow> cache \<Rightarrow> system_time \<Rightarrow>
   ('h, 'b, 'w, 'f, 'e) client_conn \<Rightarrow> cache_key \<Rightarrow> 's \<Rightarrow> (('h, 'b, 'w, 'f, 'e) client_conn \<times> 's) option" where
  "client_handle_miss E S V cch now c key s =
     (case conn_status c of
        None \<Rightarrow> None
      | Some st \<Rightarrow>
          if \<not> is_storable E (conn_method c) (conn_request_headers c) st (conn_response_headers c)
                 (handler_options cch)
          then Some (c, s)
          else if (case Option.bind (headers_get_str E (conn_response_headers c) (Known ContentLength)) parse_u64 of
                     None \<Rightarrow> False | Some len \<Rightarrow> max_cacheable_size cch < len)
          then Some (c, s)
          else let pol = policy_new E (conn_method c) (conn_request_headers c) st
                           (conn_response_headers c) now (handler_options cch)
               in case storage_put S s key pol of
                    (Inl e, s) \<Rightarrow> Some (c, s)
                  | (Inr put_handle, s) \<Rightarrow>
                      (case conn_response_body c of
                         None \<Rightarrow> Some (c, s)
                       | Some response_body \<Rightarrow>
                           (let len = served_len V response_body;
                                upstream = served_unframed V response_body len;
                                tee = tee_new upstream put_handle (max_cacheable_size cch)
                            in Some (c\<lparr>conn_response_body := Some (TeedBody tee len)\<rparr>, s))))"

definition client_handle_revalidation ::
  "'h ext \<Rightarrow> ('h, 's, 'e, 'w, 'b) storage \<Rightarrow> ('h, 'b, 'w, 'f) served_ops \<Rightarrow> cache \<Rightarrow> system_time \<Rightarrow>
   system_time \<Rightarrow> ('h, 'b, 'w, 'f, 'e) client_conn \<Rightarrow> 'e \<Rightarrow> cache_key \<Rightarrow> 's \<Rightarrow>
   (('h, 'b, 'w, 'f, 'e) client_conn \<times> 's) option" where
  "client_handle_revalidation E S V cch now now_miss c stored key s =
     (case conn_status c of
        None \<Rightarrow> None
      | Some new_status \<Rightarrow>
          (case after_response E (entry_policy S stored) (conn_request_headers c) new_status
                  (conn_response_headers c) now of
             None \<Rightarrow> None
           | Some (Refreshed new_policy cached) \<Rightarrow>
               (case entry_refresh_policy S stored new_policy s of
                  (_, stored, s) \<Rightarrow>
                    (case entry_open S stored s of
                       (Inl e, s) \<Rightarrow> Some (c, s)
                     | (Inr body, s) \<Rightarrow>
                         Some (c\<lparr>conn_status := Some (cr_status cached),
                                 conn_response_headers := cr_headers cached,
                                 conn_response_body := Some (PlainBody body)\<rparr>, s)))
           | Some Modified \<Rightarrow> client_handle_miss E S V cch now_miss c key s))"

text \<open>The clock is read for stale-if-error, for the revalidation and for a new policy.\<close>

definition client_dispatch ::
  "'h ext \<Rightarrow> ('h, 's, 'e, 'w, 'b) storage \<Rightarrow> ('h, 'b, 'w, 'f) served_ops \<Rightarrow> cache \<Rightarrow> system_time \<Rightarrow>
   system_time \<Rightarrow> ('h, 'b, 'w, 'f, 'e) client_conn \<Rightarrow> 'e cache_ctx \<Rightarrow> 's \<Rightarrow>
   (('h, 'b, 'w, 'f, 'e) client_conn \<times> 's) option" where
  "client_dispatch E S V cch now_reval now_miss c ctx s =
     (if conn_status c = None then Some (c, s)
      else case ctx of
             Hit \<Rightarrow> Some (c, s)
           | Revalidation stored key \<Rightarrow>
               client_handle_revalidation E S V cch now_reval now_miss c stored key s
           | Miss key \<Rightarrow> client_handle_miss E S V cch now_miss c key s
           | Unsafe u \<Rightarrow>
               (case conn_status c of
                  None \<Rightarrow> None
                | Some st \<Rightarrow> Some (c, invalidate_unsafe E S u st (conn_response_headers c) s)))"

definition client_after_response ::
  "'h ext \<Rightarrow> ('h, 's, 'e, 'w, 'b) storage \<Rightarrow> ('h, 'b, 'w, 'f) served_ops \<Rightarrow> cache \<Rightarrow> system_time \<Rightarrow>
   system_time \<Rightarrow> system_time \<Rightarrow> ('h, 'b, 'w, 'f, 'e) client_conn \<Rightarrow> 's \<Rightarrow>
   (('h, 'b, 'w, 'f, 'e) client_conn \<times> 's) option" where
  "client_after_response E S V cch now now_reval now_miss c s =
     (case conn_state c of
        None \<Rightarrow> Some (c, s)
      | Some ctx \<Rightarrow>
          (let c = c\<lparr>conn_state := None\<rparr>;
               origin_failed = (conn_error c \<noteq> None \<or> is_some_and (conn_status c) (status_is_server_error E))
           in case ctx of
                Revalidation stored _ \<Rightarrow>
                  do {
                    serve \<leftarrow> (if origin_failed then is_sie_eligible E (entry_policy S stored) now
                              else Some False);
                    if serve then
                      (case serve_stale E S c stored now s of
                         None \<Rightarrow> None
                       | Some (Inl e, c, s) \<Rightarrow> Some (c, s)
                       | Some (Inr _, c, s) \<Rightarrow> Some (c\<lparr>conn_error := None\<rparr>, s))
                    else client_dispatch E S V cch now_reval now_miss c ctx s }
              | _ \<Rightarrow> client_dispatch E S V cch now_reval now_miss c ctx s))"

subsection \<open>Background revalidation\<close>

partial_function (option) await_read ::
  "('h, 'u) body_ops \<Rightarrow> nat \<Rightarrow> 'u \<Rightarrow> (bytes io_result \<times> 'u) option" where
  "await_read B n u =
     (case body_poll_read B u n of
        (Pending, u) \<Rightarrow> await_read B n u
      | (Ready r, u) \<Rightarrow> Some (r, u))"

partial_function (option) write_all ::
  "('h, 's, 'w, 'f) put_handle \<Rightarrow> 'w \<Rightarrow> bytes \<Rightarrow> (unit io_result \<times> 'w) option" where
  "write_all H w buf =
     (if buf = [] then Some (Inr (), w)
      else case poll_write H w buf of
             (Pending, w) \<Rightarrow> write_all H w buf
           | (Ready (Inl e), w) \<Rightarrow> Some (Inl e, w)
           | (Ready (Inr n), w) \<Rightarrow>
               if length buf < n then None
               else if n = 0 then Some (Inl (IoError ''write zero''), w)
               else write_all H w (drop n buf))"

partial_function (option) await_finalize ::
  "('h, 's, 'w, 'f) put_handle \<Rightarrow> 'f \<Rightarrow> 's \<Rightarrow> (unit io_result \<times> 's) option" where
  "await_finalize H fut s =
     (case poll_finalize H fut s of
        (Pending, fut, s) \<Rightarrow> await_finalize H fut s
      | (Ready r, _, s) \<Rightarrow> Some (r, s))"

partial_function (option) copy_loop ::
  "('h, 'u) body_ops \<Rightarrow> ('h, 's, 'w, 'f) put_handle \<Rightarrow> u64 \<Rightarrow> 'u \<Rightarrow> 'w \<Rightarrow> u64 \<Rightarrow> 's \<Rightarrow>
   (unit io_result \<times> 's) option" where
  "copy_loop B H cap body put copied s =
     (case await_read B 8192 body of
        None \<Rightarrow> None
      | Some (Inl e, body) \<Rightarrow> Some (Inl e, s)
      | Some (Inr bs, body) \<Rightarrow>
          if bs = [] then
            (let (trailers, body) = body_trailers B body
             in await_finalize H (finalize H put trailers) s)
          else let copied = u64_saturating_add copied (word_of_nat (length bs))
               in if cap < copied then Some (Inr (), s)
                  else case write_all H put bs of
                         None \<Rightarrow> None
                       | Some (Inl e, put) \<Rightarrow> Some (Inl e, s)
                       | Some (Inr _, put) \<Rightarrow> copy_loop B H cap body put copied s)"

definition copy_into_storage ::
  "('h, 'b) body_ops \<Rightarrow> ('h, 's, 'w, 'f) put_handle \<Rightarrow> ('h, 'b, 'w, 'f) served_ops \<Rightarrow>
   ('h, 'b, 'w, 'f) served_body \<Rightarrow> 'w \<Rightarrow> u64 \<Rightarrow> 's \<Rightarrow> (unit io_result \<times> 's) option" where
  "copy_into_storage B P V body put cap s =
     (let len = served_len V body;
          body = served_unframed V body len
      in copy_loop B P cap body put 0 s)"

definition background_revalidation ::
  "'h ext \<Rightarrow> ('h, 's, 'e, 'w, 'b) storage \<Rightarrow> ('h, 'b) body_ops \<Rightarrow> ('h, 's, 'w, 'f) put_handle \<Rightarrow>
   ('h, 'b, 'w, 'f) served_ops \<Rightarrow> ('h, 'b, 'w, 'f, 'e) client_ops \<Rightarrow> cache \<Rightarrow> system_time \<Rightarrow>
   ('h, 'e) background_task \<Rightarrow> 's \<Rightarrow> 's option" where
  "background_revalidation E S B P V C cch now task s =
     (let new_conn = client_build_conn C (bg_method task) (bg_url task);
          new_conn = new_conn\<lparr>conn_request_headers := bg_request_headers task\<rparr>
      in case client_send C new_conn of
           Inl e \<Rightarrow> Some s
         | Inr new_conn \<Rightarrow>
             (case conn_status new_conn of
                None \<Rightarrow> None
              | Some new_status \<Rightarrow>
                  (case after_response E (entry_policy S (bg_stored task)) (conn_request_headers new_conn)
                          new_status (conn_response_headers new_conn) now of
                     None \<Rightarrow> None
                   | Some (Refreshed new_policy _) \<Rightarrow>
                       (case entry_refresh_policy S (bg_stored task) new_policy s of (_, _, s) \<Rightarrow> Some s)
                   | Some Modified \<Rightarrow>
                       if \<not> is_storable E (conn_method new_conn) (conn_request_headers new_conn) new_status
                              (conn_response_headers new_conn) (handler_options cch)
                       then Some s
                       else let new_policy = policy_new E (conn_method new_conn) (conn_request_headers new_conn)
                                   new_status (conn_response_headers new_conn) now (handler_options cch)
                            in case storage_put S s (bg_key task) new_policy of
                                 (Inl e, s) \<Rightarrow> Some s
                               | (Inr put_handle, s) \<Rightarrow>
                                   (case conn_response_body new_conn of
                                      None \<Rightarrow> Some s
                                    | Some body \<Rightarrow>
                                        map_option snd
                                          (copy_into_storage B P V body put_handle (max_cacheable_size cch) s)))))"

subsection \<open>Lemmas: the candidates\<close>

text \<open>What it means that the connection now carries the stored head and body of an entry.\<close>

definition answered_with ::
  "('h, 's, 'e, 'w, 'b) storage \<Rightarrow> 'e \<Rightarrow> 'h cached_head \<Rightarrow> ('h, 'b, 'w, 'f, 'e, 'z) conn_scheme \<Rightarrow> bool" where
  "answered_with S e head c \<longleftrightarrow>
     conn_status c = Some (cr_status head) \<and> conn_response_headers c = cr_headers head \<and>
     (\<exists>s body s'. entry_open S e s = (Inr body, s') \<and> conn_response_body c = Some (PlainBody body))"

text \<open>The three ways a candidate answers the request.\<close>

definition candidate_answers ::
  "'h ext \<Rightarrow> ('h, 's, 'e, 'w, 'b) storage \<Rightarrow> system_time \<Rightarrow> 'h \<Rightarrow> 'e \<Rightarrow> ('h, 'b, 'w, 'f, 'e) client_conn \<Rightarrow>
   ('h, 'e) background_task list \<Rightarrow> bool" where
  "candidate_answers E S now rq e c tasks \<longleftrightarrow>
     (\<exists>r. before_request E (entry_policy S e) rq now = Some (Fresh r) \<and> answered_with S e r c \<and> tasks = []) \<or>
     (\<exists>r. before_request E (entry_policy S e) rq now = Some (ServeNotModified r) \<and>
        conn_status c = Some (cr_status r) \<and> conn_response_headers c = cr_headers r \<and>
        conn_response_body c = Some EmptyBody \<and> tasks = []) \<or>
     (\<exists>r hs t. before_request E (entry_policy S e) rq now = Some (Stale hs True) \<and>
        is_swr_eligible E (entry_policy S e) now = Some True \<and>
        cached_response E (entry_policy S e) now = Some r \<and> answered_with S e r c \<and>
        tasks = [t] \<and> bg_stored t = e \<and> bg_request_headers t = hs)"

lemma serve_stale_Some:
  assumes "serve_stale E S c e now s = Some (r, c', s')"
  shows "(\<exists>err. r = Inl err \<and> c' = c) \<or>
     r = Inr () \<and> (\<exists>head body. cached_response E (entry_policy S e) now = Some head \<and>
        entry_open S e s = (Inr body, s') \<and>
        c' = c\<lparr>conn_status := Some (cr_status head), conn_response_headers := cr_headers head,
               conn_response_body := Some (PlainBody body)\<rparr>)"
proof -
  obtain head where h: "cached_response E (entry_policy S e) now = Some head"
    using assms by (cases "cached_response E (entry_policy S e) now") (auto simp: serve_stale_def)
  obtain x s1 where o: "entry_open S e s = (x, s1)" by (cases "entry_open S e s")
  show ?thesis using assms h o by (cases x) (auto simp: serve_stale_def)
qed

lemma serve_stale_total:
  assumes "age E (entry_policy S e) now = Some a"
  shows "serve_stale E S c e now s \<noteq> None"
  using cached_response_total [OF assms]
  by (auto simp: serve_stale_def split: prod.split sum.split)

text \<open>
  The outcome of the loop: an answer from the first matching candidate, a revalidation of
  it, a candidate that could not be opened, or a miss when no candidate matches.
\<close>

lemma run_candidates_outcome:
  assumes "run_candidates E S key now c es s = Some (c', s', tasks)"
  shows "(\<exists>e \<in> set es. candidate_answers E S now (conn_request_headers c) e c' tasks \<and>
        conn_halted c' \<and> conn_state c' = Some Hit) \<or>
     (\<exists>e \<in> set es. \<exists>hs. before_request E (entry_policy S e) (conn_request_headers c) now = Some (Stale hs True) \<and>
        tasks = [] \<and> c' = c\<lparr>conn_request_headers := hs, conn_state := Some (Revalidation e key)\<rparr>) \<or>
     (conn_halted c' = conn_halted c \<and> conn_state c' = conn_state c) \<or>
     (tasks = [] \<and> c' = c\<lparr>conn_state := Some (Miss key)\<rparr> \<and>
        (\<forall>e \<in> set es. \<not> vary_matches E (entry_policy S e) (conn_request_headers c)))"
  using assms
proof (induction es)
  case Nil
  then show ?case by simp
next
  case (Cons entry entries)
  let ?p = "entry_policy S entry" and ?rq = "conn_request_headers c"
  obtain b where b: "before_request E ?p ?rq now = Some b"
    using Cons.prems by (cases "before_request E ?p ?rq now") auto
  show ?case
  proof (cases b)
    case (Fresh cached)
    obtain x s1 where o: "entry_open S entry s = (x, s1)" by (cases "entry_open S entry s")
    show ?thesis
      using Cons.prems b Fresh o
      by (cases x) (auto simp: candidate_answers_def answered_with_def)
  next
    case (ServeNotModified cached)
    then show ?thesis using Cons.prems b by (auto simp: candidate_answers_def)
  next
    case (Stale hs m)
    show ?thesis
    proof (cases m)
      case False
      have "\<not> vary_matches E ?p ?rq"
        using before_request_StaleD(1) [OF b [unfolded Stale]] False by simp
      moreover have "run_candidates E S key now c entries s = Some (c', s', tasks)"
        using Cons.prems b Stale False by simp
      note Cons.IH [OF this]
      ultimately show ?thesis by (elim disjE) auto
    next
      case True
      obtain sw where sw: "is_swr_eligible E ?p now = Some sw"
        using Cons.prems b Stale True by (cases "is_swr_eligible E ?p now") auto
      show ?thesis
      proof (cases sw)
        case False
        then show ?thesis using Cons.prems b Stale True sw by auto
      next
        case sw_True: True
        obtain r c1 s1 where ss: "serve_stale E S c entry now s = Some (r, c1, s1)"
          using Cons.prems b Stale True sw sw_True
          by (cases "serve_stale E S c entry now s") (auto simp: Let_def)
        let ?t = "spawn_background_revalidation c entry key hs"
        show ?thesis
        proof (cases r)
          case (Inl err)
          then have "c1 = c" using serve_stale_Some [OF ss] by simp
          then show ?thesis using Cons.prems b Stale True sw sw_True ss Inl by (simp add: Let_def)
        next
          case (Inr u)
          then obtain head body where h: "cached_response E ?p now = Some head"
            and o: "entry_open S entry s = (Inr body, s1)"
            and c1: "c1 = c\<lparr>conn_status := Some (cr_status head), conn_response_headers := cr_headers head,
               conn_response_body := Some (PlainBody body)\<rparr>"
            using serve_stale_Some [OF ss] by auto
          have res: "c' = c1\<lparr>conn_halted := True, conn_state := Some Hit\<rparr>" "tasks = [?t]"
            using Cons.prems b Stale True sw sw_True ss Inr by (simp_all add: Let_def)
          have "answered_with S entry head c'"
            using o by (auto simp: answered_with_def res c1)
          then have "candidate_answers E S now ?rq entry c' tasks"
            unfolding candidate_answers_def using b Stale True sw sw_True h res
            by (auto simp: spawn_background_revalidation_def)
          then show ?thesis using res by simp
        qed
      qed
    qed
  qed
qed

text \<open>The loop panics exactly when the first matching candidate has no representable age.\<close>

lemma run_candidates_None_iff:
  "run_candidates E S key now c es s = None \<longleftrightarrow>
     (\<exists>e. List.find (\<lambda>e. vary_matches E (entry_policy S e) (conn_request_headers c)) es = Some e \<and>
        age E (entry_policy S e) now = None)"
proof (induction es)
  case (Cons e es)
  let ?p = "entry_policy S e" and ?rq = "conn_request_headers c"
  show ?case
  proof (cases "vary_matches E ?p ?rq")
    case False
    then show ?thesis using Cons.IH by (simp add: before_request_unmatched)
  next
    case True
    show ?thesis
    proof (cases "age E ?p now")
      case None
      then show ?thesis
        using True before_request_age_None [OF None, of ?rq] stale_serving_age_None [OF None]
        by (auto simp: is_swr_eligible_def)
    next
      case (Some a)
      obtain b where b: "before_request E ?p ?rq now = Some b" using before_request_total [OF Some] by blast
      moreover obtain w where "is_swr_eligible E ?p now = Some w"
        using stale_serving_total [OF Some] unfolding is_swr_eligible_def by blast
      moreover have "serve_stale E S c e now s \<noteq> None" using serve_stale_total [OF Some] .
      moreover have "b \<noteq> Stale hs False" for hs
        using before_request_StaleD(1) [of E ?p ?rq now hs False] b True by auto
      ultimately show ?thesis
        using True Some by (auto simp: Let_def split: BeforeRequest.split prod.split sum.split bool.split)
    qed
  qed
qed simp

lemma run_candidates_skip:
  assumes "\<forall>e \<in> set es. \<not> vary_matches E (entry_policy S e) (conn_request_headers c)"
  shows "run_candidates E S key now c (es @ es') s = run_candidates E S key now c es' s"
  using assms by (induction es) (simp_all add: before_request_unmatched)

subsection \<open>Lemmas: after the response\<close>

lemma client_handle_miss_cases:
  assumes "client_handle_miss E S V cch now c key s = Some (c', s')"
  shows "c' = c \<and> s' = s \<or>
     (\<exists>st pol. conn_status c = Some st \<and>
        is_storable E (conn_method c) (conn_request_headers c) st (conn_response_headers c) (handler_options cch) \<and>
        pol = policy_new E (conn_method c) (conn_request_headers c) st (conn_response_headers c) now
                (handler_options cch) \<and>
        s' = snd (storage_put S s key pol) \<and>
        (c' = c \<or> (\<exists>w body. fst (storage_put S s key pol) = Inr w \<and> conn_response_body c = Some body \<and>
           c' = c\<lparr>conn_response_body := Some (TeedBody
             (tee_new (served_unframed V body (served_len V body)) w (max_cacheable_size cch))
             (served_len V body))\<rparr>)))"
proof -
  obtain st where st: "conn_status c = Some st"
    using assms by (cases "conn_status c") (auto simp: client_handle_miss_def)
  let ?pol = "policy_new E (conn_method c) (conn_request_headers c) st (conn_response_headers c) now
      (handler_options cch)"
  obtain r s1 where p: "storage_put S s key ?pol = (r, s1)" by (cases "storage_put S s key ?pol")
  show ?thesis
  proof (cases "c' = c \<and> s' = s")
    case False
    then have "is_storable E (conn_method c) (conn_request_headers c) st (conn_response_headers c) (handler_options cch)"
      and rest: "(case r of Inl e \<Rightarrow> Some (c, s1) | Inr w \<Rightarrow>
         (case conn_response_body c of None \<Rightarrow> Some (c, s1) | Some body \<Rightarrow>
            Some (c\<lparr>conn_response_body := Some (TeedBody
             (tee_new (served_unframed V body (served_len V body)) w (max_cacheable_size cch))
             (served_len V body))\<rparr>, s1))) = Some (c', s')"
      using assms st p by (auto simp: client_handle_miss_def Let_def split: if_splits sum.splits option.splits)
    then show ?thesis using st p by (auto split: sum.splits option.splits)
  qed blast
qed

lemma client_handle_miss_total:
  "conn_status c \<noteq> None \<Longrightarrow> \<exists>c' s'. client_handle_miss E S V cch now c key s = Some (c', s')"
  by (auto simp: client_handle_miss_def Let_def split: prod.split sum.split option.split)

lemma client_dispatch_total: "client_dispatch E S V cch now_reval now_miss c ctx s \<noteq> None"
proof (cases "conn_status c")
  case (Some st)
  have miss: "client_handle_miss E S V cch now_miss c k s' \<noteq> None" for k s'
    using client_handle_miss_total [of c] Some by fastforce
  have "client_handle_revalidation E S V cch now_reval now_miss c e k s \<noteq> None" for e k
    using after_response_total [of E "entry_policy S e" "conn_request_headers c" st "conn_response_headers c" now_reval]
      miss Some
    by (auto simp: client_handle_revalidation_def split: AfterResponse.split prod.split sum.split)
  with miss Some show ?thesis by (auto simp: client_dispatch_def split: cache_ctx.split)
qed (simp add: client_dispatch_def)

lemma client_handle_revalidation_cases:
  assumes "client_handle_revalidation E S V cch now now_miss c e key s = Some (c', s')"
    and "conn_status c \<noteq> Some 304"
  shows "client_handle_miss E S V cch now_miss c key s = Some (c', s')"
proof -
  obtain st where st: "conn_status c = Some st"
    using assms by (cases "conn_status c") (auto simp: client_handle_revalidation_def)
  then have "after_response E (entry_policy S e) (conn_request_headers c) st (conn_response_headers c) now
      = Some Modified"
    using assms(2) by (simp add: after_response_def)
  then show ?thesis using assms(1) st by (simp add: client_handle_revalidation_def)
qed

lemma client_dispatch_keeps:
  assumes "client_dispatch E S V cch now_reval now_miss c (Revalidation e key) s = Some (c', s')"
    and "conn_status c \<noteq> Some 304"
  shows "conn_status c' = conn_status c \<and> conn_error c' = conn_error c \<and>
     conn_response_headers c' = conn_response_headers c"
proof (cases "conn_status c")
  case None
  then show ?thesis using assms(1) by (auto simp: client_dispatch_def)
next
  case (Some st)
  then have "client_handle_miss E S V cch now_miss c key s = Some (c', s')"
    using assms by (intro client_handle_revalidation_cases) (auto simp: client_dispatch_def)
  from client_handle_miss_cases [OF this] show ?thesis by auto
qed

lemma client_after_response_None_iff:
  "client_after_response E S V cch t t_reval t_miss d s = None \<longleftrightarrow>
     (\<exists>e k. conn_state d = Some (Revalidation e k) \<and>
        (conn_error d \<noteq> None \<or> is_some_and (conn_status d) (status_is_server_error E)) \<and>
        age E (entry_policy S e) t = None)"
proof (cases "\<exists>e k. conn_state d = Some (Revalidation e k)")
  case False
  then show ?thesis
    using client_dispatch_total
    by (auto simp: client_after_response_def Let_def split: option.split cache_ctx.split)
next
  case True
  then obtain e k where d: "conn_state d = Some (Revalidation e k)" by blast
  let ?p = "entry_policy S e" and ?d = "d\<lparr>conn_state := None\<rparr>"
  show ?thesis
  proof (cases "age E ?p t")
    case None
    then show ?thesis
      using d client_dispatch_total stale_serving_age_None [OF None]
      by (auto simp: client_after_response_def Let_def is_sie_eligible_def)
  next
    case (Some a)
    obtain w where "is_sie_eligible E ?p t = Some w"
      using stale_serving_total [OF Some] unfolding is_sie_eligible_def by blast
    moreover have "serve_stale E S ?d e t s \<noteq> None" using serve_stale_total [OF Some] .
    ultimately show ?thesis
      using d Some client_dispatch_total
      by (auto simp: client_after_response_def Let_def split: prod.split sum.split)
  qed
qed



subsection \<open>Lemmas: copying in the background\<close>

context put_writer
begin

lemma write_all_content:
  assumes "ok p" and "write_all (P p) w buf = Some (r, w')"
  shows "wk w' = wk w \<and> wp w' = wp w \<and> (r = Inr () \<longrightarrow> content w' = content w @ buf)"
proof -
  let ?Q = "\<lambda>Q w buf y. Q = P p \<longrightarrow> wk (snd y) = wk w \<and> wp (snd y) = wp w \<and>
      (fst y = Inr () \<longrightarrow> content (snd y) = content w @ buf)"
  have "?Q (P p) w buf (r, w')"
  proof (rule write_all.raw_induct [where P = ?Q, OF _ assms(2)])
    fix f Q w buf y
    assume IH: "\<And>Q w buf y. f Q w buf = Some y \<Longrightarrow> ?Q Q w buf y"
      and eq: "(if buf = [] then Some (Inr (), w)
        else case poll_write Q w buf of
               (Pending, w) \<Rightarrow> f Q w buf
             | (Ready (Inl e), w) \<Rightarrow> Some (Inl e, w)
             | (Ready (Inr n), w) \<Rightarrow>
                 if length buf < n then None
                 else if n = 0 then Some (Inl (IoError ''write zero''), w)
                 else f Q w (drop n buf)) = Some y"
    show "?Q Q w buf y"
    proof (cases "Q = P p \<and> buf \<noteq> []")
      case False
      then show ?thesis using eq by auto
    next
      case True
      obtain x v where x: "poll_write (P p) w buf = (x, v)" by (cases "poll_write (P p) w buf")
      note keeps = write_keeps [OF assms(1) x]
      consider "x = Pending" | e where "x = Ready (Inl e)" | n where "x = Ready (Inr n)"
        by (metis poll.exhaust sum.exhaust)
      then show ?thesis
      proof cases
        case 1
        then show ?thesis
          using IH [of Q v buf y] eq True x keeps write_pending [OF assms(1), of w buf v] by simp
      next
        case 2
        then show ?thesis using eq True x keeps by auto
      next
        case 3
        note acc = write_ok [OF assms(1) x [unfolded 3]]
        then show ?thesis
          using IH [of Q v "drop n buf" y] eq True x keeps 3 by (cases "n = 0") auto
      qed
    qed
  qed
  then show ?thesis by simp
qed

lemma await_read_source:
  assumes "byte_source (body_poll_read B) rem" and "0 < n" and "await_read B n u = Some (r, u')"
  shows "case r of Inl e \<Rightarrow> rem u' = rem u
     | Inr bs \<Rightarrow> rem u = bs @ rem u' \<and> length bs \<le> n \<and> (bs = [] \<longrightarrow> rem u = [])"
proof -
  let ?Q = "\<lambda>B' n u y. B' = B \<longrightarrow> 0 < n \<longrightarrow> (case fst y of Inl e \<Rightarrow> rem (snd y) = rem u
     | Inr bs \<Rightarrow> rem u = bs @ rem (snd y) \<and> length bs \<le> n \<and> (bs = [] \<longrightarrow> rem u = []))"
  have "?Q B n u (r, u')"
  proof (rule await_read.raw_induct [where P = ?Q, OF _ assms(3)])
    fix f B' n u y
    assume IH: "\<And>B' n u y. f B' n u = Some y \<Longrightarrow> ?Q B' n u y"
      and eq: "(case body_poll_read B' u n of (Pending, u) \<Rightarrow> f B' n u | (Ready r, u) \<Rightarrow> Some (r, u)) = Some y"
    show "?Q B' n u y"
    proof (intro impI)
      assume B: "B' = B" and n: "0 < n"
      obtain x v where x: "body_poll_read B u n = (x, v)" by (cases "body_poll_read B u n")
      show "case fst y of Inl e \<Rightarrow> rem (snd y) = rem u
        | Inr bs \<Rightarrow> rem u = bs @ rem (snd y) \<and> length bs \<le> n \<and> (bs = [] \<longrightarrow> rem u = [])"
      proof (cases x)
        case Pending
        have "f B n v = Some y" using eq B x Pending by simp
        from IH [OF this] n show ?thesis
          unfolding byte_source.read_pending [OF assms(1) x [unfolded Pending]] by blast
      next
        case (Ready z)
        then have y: "y = (z, v)" using eq B x by simp
        show ?thesis
        proof (cases z)
          case (Inl e)
          then show ?thesis using byte_source.read_error [OF assms(1) x [unfolded Ready Inl]] y by simp
        next
          case (Inr bs)
          then show ?thesis using byte_source.read_ok [OF assms(1) x [unfolded Ready Inr]] y n by auto
        qed
      qed
    qed
  qed
  then show ?thesis using assms(2) unfolding fst_conv snd_conv by blast
qed

text \<open>The loop has copied \<open>d\<close>; what is left of the source and what it commits.\<close>

lemma copy_loop_commits:
  assumes "ok p" and "byte_source (body_poll_read B) rem"
    and "copy_loop B (P p) cap u w copied s = Some (r, s')"
    and "content w = d" and "length d = unat copied" and "copied \<le> cap"
    and "cap < - 1"
  shows "s' = s \<or> length (d @ rem u) \<le> unat cap \<and>
     (\<exists>f. fk f = wk w \<and> v_policy (fv f) = wp w \<and> v_body (fv f) = d @ rem u \<and>
          await_finalize (P p) f s = Some (r, s'))"
proof -
  let ?Q = "\<lambda>B' H cap u w copied s y. \<forall>d. B' = B \<longrightarrow> H = P p \<longrightarrow> content w = d \<longrightarrow>
     length d = unat copied \<longrightarrow> copied \<le> cap \<longrightarrow> cap < - 1 \<longrightarrow>
     snd y = s \<or> length (d @ rem u) \<le> unat cap \<and>
       (\<exists>f. fk f = wk w \<and> v_policy (fv f) = wp w \<and> v_body (fv f) = d @ rem u \<and>
          await_finalize (P p) f s = Some y)"
  have "?Q B (P p) cap u w copied s (r, s')"
  proof (rule copy_loop.raw_induct [where P = ?Q, OF _ assms(3)])
    fix f B' H cap u w copied s y
    assume IH: "\<And>B' H cap u w copied s y. f B' H cap u w copied s = Some y \<Longrightarrow> ?Q B' H cap u w copied s y"
      and eq: "(case await_read B' 8192 u of
          None \<Rightarrow> None
        | Some (Inl e, body) \<Rightarrow> Some (Inl e, s)
        | Some (Inr bs, body) \<Rightarrow>
            if bs = [] then
              (let (trailers, body) = body_trailers B' body
               in await_finalize H (finalize H w trailers) s)
            else let copied = u64_saturating_add copied (word_of_nat (length bs))
                 in if cap < copied then Some (Inr (), s)
                    else case write_all H w bs of
                           None \<Rightarrow> None
                         | Some (Inl e, put) \<Rightarrow> Some (Inl e, s)
                         | Some (Inr _, put) \<Rightarrow> f B' H cap body put copied s) = Some y"
    show "?Q B' H cap u w copied s y"
    proof (intro allI impI)
      fix d assume B: "B' = B" "H = P p" and c: "content w = d" "length d = unat copied" "copied \<le> cap"
        and cap: "cap < - 1"
      obtain x u1 where x: "await_read B 8192 u = Some (x, u1)"
        using eq B by (cases "await_read B 8192 u") auto
      note rd = await_read_source [OF assms(2) zero_less_numeral x]
      show "snd y = s \<or> length (d @ rem u) \<le> unat cap \<and>
         (\<exists>f. fk f = wk w \<and> v_policy (fv f) = wp w \<and> v_body (fv f) = d @ rem u \<and>
            await_finalize (P p) f s = Some y)"
      proof (cases x)
        case (Inl e)
        then show ?thesis using eq B x by auto
      next
        case (Inr bs)
        show ?thesis
        proof (cases "bs = []")
          case True
          then have fin: "await_finalize (P p) (finalize (P p) w (fst (body_trailers B u1))) s = Some y"
            using eq B x Inr by (simp add: split_def)
          have "rem u = []" using rd Inr True by auto
          then show ?thesis
            using fin c finalize_key [OF assms(1)] finalize_content [OF assms(1)]
            by (intro disjI2 conjI exI [of _ "finalize (P p) w (fst (body_trailers B u1))"])
               (auto simp: word_le_nat_alt)
        next
          case False
          let ?n = "u64_saturating_add copied (word_of_nat (length bs))"
          show ?thesis
          proof (cases "cap < ?n \<or> (\<exists>e v. write_all (P p) w bs = Some (Inl e, v))")
            case True
            then show ?thesis using eq B x Inr False by (auto simp: Let_def split: if_splits)
          next
            case go: False
            then obtain v where v: "write_all (P p) w bs = Some (Inr (), v)"
              and step: "f B (P p) cap u1 v ?n s = Some y"
              using eq B x Inr False
              by (cases "write_all (P p) w bs") (auto simp: Let_def split: sum.splits)
            note wa = write_all_content [OF assms(1) v]
            have len: "length bs \<le> 8192" and rem: "rem u = bs @ rem u1" using rd Inr by simp_all
            have l: "unat (word_of_nat (length bs) :: u64) = length bs"
              using len by (intro unat_of_nat_u64) simp
            have le: "?n \<le> cap" using go by (meson not_le)
            have sum: "unat copied + length bs < 2 ^ 64"
              using u64_saturating_add_le [OF le cap] l by simp
            then have n: "unat ?n = unat copied + length bs"
              using unat_add_u64 [of copied "word_of_nat (length bs)"] l
              by (simp add: u64_saturating_add_def)
            have "content v = d @ bs" "length (d @ bs) = unat ?n" using wa c n by auto
            from IH [OF step, rule_format, OF refl refl this le cap] show ?thesis
              using rem wa by simp
          qed
        qed
      qed
    qed
  qed
  then show ?thesis using assms(4-7) by simp
qed

end

subsection \<open>Properties\<close>

text \<open>Which candidate a halted connection was answered from.\<close>

lemma client_halted_candidate:
  assumes "client_run E S now c s = Some (c', s', tasks)" and "\<not> conn_halted c" and "conn_halted c'"
  shows "method_is_safe E (conn_method c) \<and> conn_state c' = Some Hit \<and>
     (\<exists>e \<in> set (fst (storage_get S s (cache_key_new (conn_method c) (conn_url c)))).
        vary_matches E (entry_policy S e) (conn_request_headers c) \<and>
        candidate_answers E S now (conn_request_headers c) e c' tasks)"
proof -
  let ?key = "cache_key_new (conn_method c) (conn_url c)"
  have safe: "method_is_safe E (conn_method c)"
    using assms by (auto simp: client_run_def Let_def split: if_splits)
  then have "run_candidates E S ?key now c (fst (storage_get S s ?key)) (snd (storage_get S s ?key))
      = Some (c', s', tasks)"
    using assms(1) by (simp add: client_run_def split_def Let_def)
  from run_candidates_outcome [OF this] assms(2,3)
  obtain e where e: "e \<in> set (fst (storage_get S s ?key))"
    and ans: "candidate_answers E S now (conn_request_headers c) e c' tasks"
    and hit: "conn_state c' = Some Hit"
    by (elim disjE) auto
  have "vary_matches E (entry_policy S e) (conn_request_headers c)"
    using ans unfolding candidate_answers_def
    by (auto dest: before_request_FreshD(1) before_request_304D(1) before_request_StaleD(1))
  with safe e ans hit show ?thesis by blast
qed

text \<open>
  C2: the handler answers a request itself (halts the connection) only for a safe method
  and only from an entry stored under the request's own method and URI: with the stored head
  and body if the policy finds it fresh enough, with a bodiless 304 if the client's condition
  matches as well, or with a matching stale entry inside its stale-while-revalidate window,
  for which exactly one background revalidation is spawned.
\<close>

theorem client_hit_sound:
  assumes "client_run E S now c s = Some (c', s', tasks)" and "\<not> conn_halted c" and "conn_halted c'"
  shows "method_is_safe E (conn_method c) \<and> conn_state c' = Some Hit \<and>
     (\<exists>e \<in> set (fst (storage_get S s (cache_key_new (conn_method c) (conn_url c)))).
        vary_matches E (entry_policy S e) (conn_request_headers c) \<and>
        candidate_answers E S now (conn_request_headers c) e c' tasks)"
  by (rule client_halted_candidate [OF assms])

text \<open>A connection, and the storage with one fresh entry for it, for the witnesses.\<close>

type_synonym ref_conn = "(hmap, hmap replay_body_source, hmap in_memory_put_handle,
  hmap in_memory_future, hmap in_memory_entry) client_conn"

definition ref_client_conn :: "http_method \<Rightarrow> ref_conn" where
  "ref_client_conn m =
     \<lparr>conn_method = m, conn_request_headers = [], conn_status = None, conn_response_headers = [],
      conn_response_body = None, conn_halted = False, conn_state = None,
      conn_url = ''http://h/a'', conn_error = None\<rparr>"

definition ref_store :: "cache_key \<Rightarrow> hmap bucket option" where
  "ref_store = (\<lambda>k. None)(ref_key := Some [future_variant ref_future])"

abbreviation ref_storage where
  "ref_storage \<equiv> in_memory_storage_ops ref_mem_env"

theorem client_hit_sound_witness:
  "\<exists>c' s' tasks. client_run ref_env ref_storage 5000000000 (ref_client_conn Get) ref_store = Some (c', s', tasks)
     \<and> conn_state c' = Some Hit"
proof -
  have "(case client_run ref_env ref_storage 5000000000 (ref_client_conn Get) ref_store of
      None \<Rightarrow> False | Some (c', s', tasks) \<Rightarrow> conn_halted c')"
    by code_simp
  then obtain c' s' tasks where
    r: "client_run ref_env ref_storage 5000000000 (ref_client_conn Get) ref_store = Some (c', s', tasks)"
    and h: "conn_halted c'"
    by (auto split: option.splits)
  have "\<not> conn_halted (ref_client_conn Get)" by (simp add: ref_client_conn_def)
  from client_hit_sound [OF r this h] r show ?thesis by blast
qed

text \<open>
  C8: an unsafe request never reads the storage. When its response is a success or a
  redirection, no entry for \<open>GET\<close> or \<open>HEAD\<close> is left under the request's URI and under the
  \<open>Location\<close> and \<open>Content-Location\<close> URIs on the same host (URIs on other hosts are not
  touched by these invalidations); the response itself passes through unchanged.
\<close>

theorem client_unsafe_invalidates:
  assumes "cache_storage ok S P ek ev fk fv" and "ok p" and "\<not> method_is_safe E (conn_method c)"
    and "client_run E (S p) now c s = Some (c1, s1, tasks)"
    and "conn_state c2 = conn_state c1" and "conn_status c2 = Some st"
    and "status_is_success E st \<or> status_is_redirection E st"
    and "client_after_response E (S p) V cch t1 t2 t3 c2 s2 = Some (c3, s3)"
  shows "s1 = s \<and> tasks = [] \<and> \<not> (conn_halted c1 \<and> \<not> conn_halted c) \<and> c3 = c2\<lparr>conn_state := None\<rparr> \<and>
     s3 = foldl (invalidate_url (S p)) s2 (invalidated_urls E (conn_url c) (conn_response_headers c2)) \<and>
     (\<forall>u \<in> set (invalidated_urls E (conn_url c) (conn_response_headers c2)).
        url_host_str E u = url_host_str E (conn_url c) \<and>
        visible (S p) ev s3 (cache_key_new Get u) = [] \<and> visible (S p) ev s3 (cache_key_new Head u) = [])"
proof -
  have run: "c1 = c\<lparr>conn_state := Some (Unsafe (conn_url c))\<rparr>" "s1 = s" "tasks = []"
    using assms(3,4) by (simp_all add: client_run_def Let_def)
  then have ar: "c3 = c2\<lparr>conn_state := None\<rparr>"
    "s3 = foldl (invalidate_url (S p)) s2 (invalidated_urls E (conn_url c) (conn_response_headers c2))"
    using assms(5-8) by (simp_all add: client_after_response_def client_dispatch_def invalidate_unsafe_eq)
  have "visible (S p) ev s3 k = []"
    if "u \<in> set (invalidated_urls E (conn_url c) (conn_response_headers c2))" "k \<in> cached_keys u" for u k
    using cache_storage.invalidate_urls_visible [OF assms(1,2), of s2
        "invalidated_urls E (conn_url c) (conn_response_headers c2)" k] that
    unfolding ar(2) by (auto split: if_splits)
  then show ?thesis
    using run ar invalidated_urls_host by (auto simp: cached_keys_def)
qed

lemma ref_storage_contract: "cache_storage mem_ok in_memory_storage_ops in_memory_put_ops
    ime_key ime_variant future_key future_variant"
  using mem_store.cache_storage_axioms .

definition ref_served_ops ::
  "(hmap, hmap replay_body_source, hmap in_memory_put_handle, hmap in_memory_future) served_ops" where
  "ref_served_ops =
     \<lparr>served_len = (\<lambda>b. None),
      served_unframed = (\<lambda>b len. case b of PlainBody src \<Rightarrow> src | _ \<Rightarrow>
         \<lparr>rbs_body = [], rbs_position = 0, rbs_trailers = None\<rparr>),
      served_without_framing = (\<lambda>b. case b of PlainBody src \<Rightarrow> src | _ \<Rightarrow>
         \<lparr>rbs_body = [], rbs_position = 0, rbs_trailers = None\<rparr>)\<rparr>"

theorem client_unsafe_invalidates_witness:
  "\<exists>c3 s3. client_after_response ref_env ref_storage ref_served_ops cache_new 0 0 0
       ((ref_client_conn Post)\<lparr>conn_state := Some (Unsafe ''http://h/a''), conn_status := Some 201\<rparr>) ref_store
       = Some (c3, s3) \<and> visible ref_storage ime_variant s3 ref_key = []"
proof -
  let ?c = "ref_client_conn Post"
  let ?c2 = "?c\<lparr>conn_state := Some (Unsafe ''http://h/a''), conn_status := Some 201\<rparr>"
  have m: "\<not> method_is_safe ref_env (conn_method ?c)" by code_simp
  have run: "client_run ref_env ref_storage 0 ?c ref_store
      = Some (?c\<lparr>conn_state := Some (Unsafe ''http://h/a'')\<rparr>, ref_store, [])"
    using m by (simp add: client_run_def ref_client_conn_def)
  obtain c3 s3 where ar: "client_after_response ref_env ref_storage ref_served_ops cache_new 0 0 0 ?c2 ref_store
      = Some (c3, s3)"
    by (simp add: client_after_response_def client_dispatch_def)
  have st: "status_is_success ref_env 201 \<or> status_is_redirection ref_env 201" by code_simp
  have u: "''http://h/a'' \<in> set (invalidated_urls ref_env (conn_url ?c) (conn_response_headers ?c2))"
    by (simp add: invalidated_urls_def ref_client_conn_def)
  from client_unsafe_invalidates [OF ref_storage_contract ref_mem_ok m run _ _ st ar] u ar
  show ?thesis by (auto simp: ref_key_def)
qed

text \<open>
  C20: a failed exchange is hidden from the client only inside the stale-if-error window:
  if the origin failed (transport error or 5xx, and no 304) and the stored entry is not eligible, the
  status, headers and error of the connection stay as they are.
\<close>

theorem client_error_not_masked:
  assumes "conn_state c = Some (Revalidation e key)"
    and "conn_error c \<noteq> None \<or> is_some_and (conn_status c) (status_is_server_error E)"
    and "is_sie_eligible E (entry_policy S e) now = Some False" and "conn_status c \<noteq> Some 304"
    and "client_after_response E S V cch now now_reval now_miss c s = Some (c', s')"
  shows "conn_status c' = conn_status c \<and> conn_error c' = conn_error c \<and>
     conn_response_headers c' = conn_response_headers c"
proof -
  have "client_dispatch E S V cch now_reval now_miss (c\<lparr>conn_state := None\<rparr>) (Revalidation e key) s
      = Some (c', s')"
    using assms by (auto simp: client_after_response_def Let_def)
  from client_dispatch_keeps [OF this] show ?thesis using assms(4) by simp
qed

theorem client_error_not_masked_witness:
  "\<exists>c' s'. client_after_response ref_env ref_storage ref_served_ops cache_new 700000000000 0 0
       ((ref_client_conn Get)\<lparr>conn_state := Some (Revalidation
          \<lparr>ime_variant = future_variant ref_future, ime_key = ref_key\<rparr> ref_key), conn_error := Some ''reset''\<rparr>)
       ref_store = Some (c', s') \<and> conn_error c' = Some ''reset''"
proof -
  let ?e = "\<lparr>ime_variant = future_variant ref_future, ime_key = ref_key\<rparr>"
  let ?c = "(ref_client_conn Get)\<lparr>conn_state := Some (Revalidation ?e ref_key), conn_error := Some ''reset''\<rparr>"
  have sie: "is_sie_eligible ref_env (entry_policy ref_storage ?e) 700000000000 = Some False" by code_simp
  obtain c' s' where r: "client_after_response ref_env ref_storage ref_served_ops cache_new 700000000000 0 0
      ?c ref_store = Some (c', s')"
    using sie by (simp add: client_after_response_def client_dispatch_def ref_client_conn_def)
  from client_error_not_masked [OF _ _ sie _ r] r show ?thesis
    by (auto simp: ref_client_conn_def)
qed

text \<open>
  C14: on a miss the handler opens a put only for a response that is storable, under the
  request's own key, and only for \<open>GET\<close> and \<open>HEAD\<close>; otherwise it leaves connection and
  storage alone. The body is then replaced by a tee of the same body with the configured cap.
\<close>

theorem client_stores_only_storable:
  assumes "status_laws E" and "client_run E S now c s = Some (c1, s1, tasks)"
    and "conn_state c1 = Some (Miss key)" and "conn_state c = None"
    and "conn_state c2 = conn_state c1" and "conn_method c2 = conn_method c"
    and "client_after_response E S V cch t1 t2 t3 c2 s2 = Some (c3, s3)" and "s3 \<noteq> s2 \<or> conn_response_body c3 \<noteq> conn_response_body c2"
  shows "key = cache_key_new (conn_method c) (conn_url c) \<and> conn_method c \<in> {Get, Head} \<and>
     (\<exists>st pol. conn_status c2 = Some st \<and>
        is_storable E (conn_method c) (conn_request_headers c2) st (conn_response_headers c2) (handler_options cch) \<and>
        pol = policy_new E (conn_method c) (conn_request_headers c2) st (conn_response_headers c2) t3
                (handler_options cch) \<and>
        s3 = snd (storage_put S s2 key pol) \<and>
        (conn_response_body c3 \<noteq> conn_response_body c2 \<longrightarrow>
          (\<exists>w body. fst (storage_put S s2 key pol) = Inr w \<and> conn_response_body c2 = Some body \<and>
             conn_response_body c3 = Some (TeedBody
               (tee_new (served_unframed V body (served_len V body)) w (max_cacheable_size cch))
               (served_len V body)))))"
proof -
  let ?key = "cache_key_new (conn_method c) (conn_url c)"
  have safe: "method_is_safe E (conn_method c)"
    using assms(2,3) by (auto simp: client_run_def Let_def split: if_splits)
  then have "run_candidates E S ?key now c (fst (storage_get S s ?key)) (snd (storage_get S s ?key))
      = Some (c1, s1, tasks)"
    using assms(2) by (simp add: client_run_def split_def Let_def)
  from run_candidates_outcome [OF this] assms(3,4) have key: "key = ?key"
    by (elim disjE) auto
  have "client_dispatch E S V cch t2 t3 (c2\<lparr>conn_state := None\<rparr>) (Miss key) s2 = Some (c3, s3)"
    using assms(3,5,7) by (simp add: client_after_response_def)
  then have "client_handle_miss E S V cch t3 (c2\<lparr>conn_state := None\<rparr>) key s2 = Some (c3, s3)"
    using assms(8) by (auto simp: client_dispatch_def split: if_splits)
  from client_handle_miss_cases [OF this] assms(8)
  obtain st pol where st: "conn_status c2 = Some st"
    "is_storable E (conn_method c2) (conn_request_headers c2) st (conn_response_headers c2) (handler_options cch)"
    "pol = policy_new E (conn_method c2) (conn_request_headers c2) st (conn_response_headers c2) t3 (handler_options cch)"
    "s3 = snd (storage_put S s2 key pol)"
    and body: "c3 = c2\<lparr>conn_state := None\<rparr> \<or> (\<exists>w body. fst (storage_put S s2 key pol) = Inr w \<and>
        conn_response_body c2 = Some body \<and>
        c3 = c2\<lparr>conn_state := None, conn_response_body := Some (TeedBody
          (tee_new (served_unframed V body (served_len V body)) w (max_cacheable_size cch))
          (served_len V body))\<rparr>)"
    by auto
  have "conn_method c \<in> {Get, Head}"
    using storable_method [OF st(2)] safe assms(1,6) by (auto simp: status_laws_def)
  with key st body show ?thesis using assms(6) by auto
qed

theorem client_stores_only_storable_witness:
  "\<exists>c3. client_after_response ref_env ref_storage ref_served_ops cache_new 0 0 0
       ((ref_client_conn Get)\<lparr>conn_state := Some (Miss ref_key), conn_status := Some 200,
          conn_response_headers := [(Known CacheControl, [Utf8 ''max-age=60''])],
          conn_response_body := Some EmptyBody\<rparr>) (\<lambda>k. None) = Some (c3, (\<lambda>k. None))
     \<and> is_storable ref_env Get [] 200 [(Known CacheControl, [Utf8 ''max-age=60''])] cache_options_default"
proof -
  let ?c = "ref_client_conn Get"
  let ?c2 = "?c\<lparr>conn_state := Some (Miss ref_key), conn_status := Some 200,
      conn_response_headers := [(Known CacheControl, [Utf8 ''max-age=60''])],
      conn_response_body := Some EmptyBody\<rparr>"
  have run: "client_run ref_env ref_storage 0 ?c (\<lambda>k. None)
      = Some (?c\<lparr>conn_state := Some (Miss ref_key)\<rparr>, (\<lambda>k. None), [])"
    by (simp add: client_run_def ref_client_conn_def ref_key_def ref_env_def in_memory_storage_ops_def
        in_memory_get_def ref_mem_env_def ref_moka_def)
  have st: "is_storable ref_env Get [] 200 [(Known CacheControl, [Utf8 ''max-age=60''])] cache_options_default"
    by code_simp
  have cl: "headers_get_str ref_env [(Known CacheControl, [Utf8 ''max-age=60''])] (Known ContentLength) = None"
    by code_simp
  obtain c3 where ar: "client_after_response ref_env ref_storage ref_served_ops cache_new 0 0 0 ?c2 (\<lambda>k. None)
      = Some (c3, (\<lambda>k. None))" and b: "conn_response_body c3 \<noteq> conn_response_body ?c2"
    using st cl by (simp add: client_after_response_def client_dispatch_def client_handle_miss_def
        ref_client_conn_def cache_new_def mem_sel in_memory_put_def Let_def)
  from client_stores_only_storable [OF ref_env_status_laws run _ _ _ _ ar] b ar show ?thesis
    by (auto simp: ref_client_conn_def cache_new_def)
qed

text \<open>Copying into the in-memory storage returns, and commits if the body fits the cap.\<close>

lemma copy_loop_memory:
  assumes "byte_source (body_poll_read B) rem" and "always_ready B" and "cap < - 1"
  shows "if unat copied + length (rem u) \<le> unat cap
     then \<exists>tr. copy_loop B (in_memory_put_ops p) cap u w copied s =
        Some (Inr (), apply_op (in_memory_storage_ops p) (in_memory_put_ops p)
          (OpPollFinalize (w\<lparr>imp_buffer := imp_buffer w @ rem u\<rparr>, tr)) s)
     else copied \<le> cap \<longrightarrow> copy_loop B (in_memory_put_ops p) cap u w copied s = Some (Inr (), s)"
proof (induction "length (rem u)" arbitrary: u w copied rule: less_induct)
  case less
  obtain bs u' where rd: "body_poll_read B u 8192 = (Ready (Inr bs), u')"
    using assms(2) unfolding always_ready_def by blast
  note ro = byte_source.read_ok [OF assms(1) rd]
  have aw: "await_read B 8192 u = Some (Inr bs, u')" by (simp add: await_read.simps rd)
  have top: "unat (- 1 :: u64) = 2 ^ 64 - 1" by (simp add: unsigned_minus_1_eq_mask mask_eq_exp_minus_1)
  then have cap: "unat cap < 2 ^ 64 - 1" using assms(3) by (simp add: word_less_nat_alt)
  show ?case
  proof (cases "bs = []")
    case True
    then have nil: "rem u = []" using ro by auto
    obtain tr u2 where tr: "body_trailers B u' = (tr, u2)" by (cases "body_trailers B u'")
    have "copy_loop B (in_memory_put_ops p) cap u w copied s =
        Some (Inr (), apply_op (in_memory_storage_ops p) (in_memory_put_ops p) (OpPollFinalize (w, tr)) s)"
      using aw True tr
      by (simp add: copy_loop.simps [of B _ cap u] await_finalize.simps mem_put_sel finalize_eq)
    then show ?thesis using nil by (auto simp: word_le_nat_alt simp del: apply_op.simps)
  next
    case False
    let ?n = "word_of_nat (length bs) :: u64" and ?w = "w\<lparr>imp_buffer := imp_buffer w @ bs\<rparr>"
    let ?c = "u64_saturating_add copied ?n"
    have len: "length bs \<le> 8192" "unat ?n = length bs" using ro by (simp_all add: unat_of_nat take_bit_nat_eq_self)
    have wr: "write_all (in_memory_put_ops p) w bs = Some (Inr (), ?w)"
      using False by (simp add: write_all.simps [of _ w] write_all.simps [of _ _ "[]"] mem_put_sel in_memory_poll_write_def)
    have step: "copy_loop B (in_memory_put_ops p) cap u w copied s =
        (if cap < ?c then Some (Inr (), s) else copy_loop B (in_memory_put_ops p) cap u' ?w ?c s)"
      using aw False wr by (simp add: copy_loop.simps [of B _ cap u] Let_def)
    have c: "cap < ?c \<longleftrightarrow> unat cap < unat copied + length bs"
      "\<not> cap < ?c \<Longrightarrow> unat ?c = unat copied + length bs"
      using cap len top unat_add_u64 [of copied ?n]
      by (cases "unat copied + length bs < 2 ^ 64"; simp add: u64_saturating_add_def word_less_nat_alt)+
    have shorter: "length (rem u') < length (rem u)" and r: "rem u = bs @ rem u'" using ro False by simp_all
    show ?thesis
    proof (cases "cap < ?c")
      case True
      then show ?thesis using step c r by simp
    next
      case nc: False
      have "unat ?c + length (rem u') = unat copied + length (rem u)" using c(2) [OF nc] r by simp
      with less.hyps [OF shorter, of ?c ?w] nc step r show ?thesis
        by (auto split: if_splits simp del: apply_op.simps)
    qed
  qed
qed

text \<open>
  C27: copying a revalidated body in the background commits all of it or nothing: if the copy
  returns, the storage is unchanged or it is what finalizing a put of the complete body leaves,
  under the key and policy of the put handle, and the body fits the cap.
\<close>

theorem background_copy_all_or_nothing:
  assumes "put_writer ok P content wk wp fk fv" and "ok p" and "byte_source (body_poll_read B) rem"
    and "content w = []" and "cap < - 1" and "copy_into_storage B (P p) V body w cap s = Some (r, s')"
  defines "u \<equiv> served_unframed V body (served_len V body)"
  shows "s' = s \<or> length (rem u) \<le> unat cap \<and>
     (\<exists>f. fk f = wk w \<and> v_policy (fv f) = wp w \<and> v_body (fv f) = rem u \<and>
          await_finalize (P p) f s = Some (r, s'))"
proof -
  have "copy_loop B (P p) cap u w 0 s = Some (r, s')"
    using assms(6) by (simp add: copy_into_storage_def u_def)
  from put_writer.copy_loop_commits [OF assms(1-3) this assms(4) _ _ assms(5)] show ?thesis by simp
qed

text \<open>A body that is a list of bytes.\<close>

definition ref_list_served ::
  "(hmap, bytes, hmap in_memory_put_handle, hmap in_memory_future) served_ops" where
  "ref_list_served =
     \<lparr>served_len = (\<lambda>b. None), served_unframed = (\<lambda>b len. case b of PlainBody bs \<Rightarrow> bs | _ \<Rightarrow> []),
      served_without_framing = (\<lambda>b. case b of PlainBody bs \<Rightarrow> bs | _ \<Rightarrow> [])\<rparr>"

theorem background_copy_all_or_nothing_witness:
  "\<exists>r s'. copy_into_storage ref_body_ops (in_memory_put_ops ref_mem_env) ref_list_served
       (PlainBody [104, 105]) ref_handle 100 (\<lambda>k. None) = Some (r, s') \<and>
     (s' = (\<lambda>k. None) \<or> (\<exists>f. v_body (future_variant f) = [104, 105] \<and>
        await_finalize (in_memory_put_ops ref_mem_env) f (\<lambda>k. None) = Some (r, s')))"
proof -
  let ?P = "in_memory_put_ops ref_mem_env"
  obtain r s' where c: "copy_into_storage ref_body_ops ?P ref_list_served
      (PlainBody [104, 105]) ref_handle 100 (\<lambda>k. None) = Some (r, s')"
    by (simp add: copy_into_storage_def ref_list_served_def copy_loop.simps await_read.simps
        write_all.simps await_finalize.simps ref_body_ops_def in_memory_put_ops_def
        in_memory_poll_write_def in_memory_finalize_def ref_handle_def u64_saturating_add_def)
  have "imp_buffer ref_handle = []" by (simp add: ref_handle_def)
  from background_copy_all_or_nothing [OF mem_store.put_writer_axioms ref_mem_ok ref_body_source this _ c] c
  show ?thesis by (auto simp: ref_list_served_def)
qed

text \<open>
  C33: a request that demands revalidation is answered with a stale response all the same: inside
  the stale-while-revalidate window the client-side handler serves the first matching entry
  at once, although the request says \<open>no-cache\<close>, and revalidates it only in the background.
\<close>

theorem stale_served_despite_no_cache:
  assumes "method_is_safe E (conn_method c)"
    and "storage_get S s (cache_key_new (conn_method c) (conn_url c)) = (e # es, s1)"
    and "vary_matches E (entry_policy S e) (conn_request_headers c)" and "request_no_cache E (conn_request_headers c)"
    and "is_swr_eligible E (entry_policy S e) now = Some True" and "entry_open S e s1 = (Inr body, s2)"
  shows "\<exists>c' task head. client_run E S now c s = Some (c', s2, [task]) \<and> conn_halted c' \<and>
     is_stale E (entry_policy S e) now = Some True \<and> cached_response E (entry_policy S e) now = Some head \<and>
     conn_status c' = Some (cr_status head) \<and> conn_response_body c' = Some (PlainBody body)"
proof -
  let ?p = "entry_policy S e" and ?rq = "conn_request_headers c"
  obtain a where a: "age E ?p now = Some a" "max_age E ?p \<le> a"
    using assms(5) unfolding is_swr_eligible_def stale_serving_Some_iff by auto
  then obtain head where h: "cached_response E ?p now = Some head" using cached_response_total by blast
  have "satisfies_without_revalidation E ?p ?rq now = Some False"
    using assms(4) by (auto simp: satisfies_without_revalidation_def request_no_cache_def)
  then have "before_request E ?p ?rq now = Some (Stale (revalidation_request_headers E ?p ?rq) True)"
    using assms(3) by (simp add: before_request_def)
  then show ?thesis
    using assms a h by (simp add: client_run_def serve_stale_def is_stale_def)
qed

theorem stale_served_despite_no_cache_witness:
  "\<exists>c' s' tasks. client_run ref_env ref_storage 650000000000
       ((ref_client_conn Get)\<lparr>conn_request_headers := [(Known CacheControl, [Utf8 ''no-cache''])]\<rparr>)
       ((\<lambda>k. None)(ref_key := Some [\<lparr>v_policy = ref_policy ''max-age=600, stale-while-revalidate=100'' 0,
          v_body = [104, 105], v_trailers = None\<rparr>])) = Some (c', s', tasks) \<and> conn_halted c'"
proof -
  let ?c = "(ref_client_conn Get)\<lparr>conn_request_headers := [(Known CacheControl, [Utf8 ''no-cache''])]\<rparr>"
  let ?v = "\<lparr>v_policy = ref_policy ''max-age=600, stale-while-revalidate=100'' 0, v_body = [104, 105], v_trailers = None\<rparr>"
  let ?st = "(\<lambda>k. None)(ref_key := Some [?v])" and ?e = "\<lparr>ime_variant = ?v, ime_key = ref_key\<rparr>"
  have get: "storage_get ref_storage ?st (cache_key_new (conn_method ?c) (conn_url ?c)) = ([?e], ?st)"
    by (simp add: mem_get in_memory_get_def ref_mem_env_def ref_moka_def ref_client_conn_def ref_key_def)
  have pol: "entry_policy ref_storage ?e = ref_policy ''max-age=600, stale-while-revalidate=100'' 0"
    by (simp add: mem_sel in_memory_policy_def)
  have "method_is_safe ref_env (conn_method ?c)"
    "vary_matches ref_env (entry_policy ref_storage ?e) (conn_request_headers ?c)"
    "request_no_cache ref_env (conn_request_headers ?c)"
    "is_swr_eligible ref_env (entry_policy ref_storage ?e) 650000000000 = Some True"
    unfolding pol by code_simp+
  moreover obtain body s2 where "entry_open ref_storage ?e ?st = (Inr body, s2)"
    by (simp add: mem_sel in_memory_open_def Let_def)
  ultimately show ?thesis using stale_served_despite_no_cache [OF _ get] by blast
qed

text \<open>
  C28: when the handler panics. The first half panics exactly on a safe method whose first
  candidate with a matching \<open>Vary\<close> signature has an age beyond the largest \<open>Duration\<close>; the
  second half exactly when the revalidation of such an entry failed with a transport error or
  a 5xx. No other operation of the two halves can panic: integrating the answer of the origin
  cannot, and the \<open>expect\<close> calls on the status cannot fire, whatever the network exchange
  did to the connection.
\<close>

theorem client_panics_exactly:
  "(client_run E S now c s = None \<longleftrightarrow> method_is_safe E (conn_method c) \<and>
      (\<exists>e. List.find (\<lambda>e. vary_matches E (entry_policy S e) (conn_request_headers c))
             (fst (storage_get S s (cache_key_new (conn_method c) (conn_url c)))) = Some e \<and>
         age E (entry_policy S e) now = None)) \<and>
   (client_after_response E S V cch t t_reval t_miss d s = None \<longleftrightarrow>
      (\<exists>e k. conn_state d = Some (Revalidation e k) \<and>
         (conn_error d \<noteq> None \<or> is_some_and (conn_status d) (status_is_server_error E)) \<and>
         age E (entry_policy S e) t = None))"
  using client_after_response_None_iff [of E S V cch t t_reval t_miss d s]
  by (simp add: client_run_def Let_def split_def run_candidates_None_iff)

text \<open>A stored response with the largest \<open>Age\<close> the parser accepts.\<close>

theorem client_panics_exactly_witness:
  "\<exists>st e. client_run ref_env ref_storage 1000000000 (ref_client_conn Get) st = None \<and>
     client_after_response ref_env ref_storage ref_served_ops cache_new 1000000000 0 0
       ((ref_client_conn Get)\<lparr>conn_state := Some (Revalidation e ref_key), conn_status := Some 503\<rparr>) st = None"
proof -
  let ?v = "\<lparr>v_policy = policy_new ref_env Get [] 200 [(Known Age, [Utf8 ''18446744073709551615''])] 0 cache_options_default,
    v_body = [104, 105], v_trailers = None\<rparr>"
  let ?st = "(\<lambda>k. None)(ref_key := Some [?v])" and ?e = "\<lparr>ime_variant = ?v, ime_key = ref_key\<rparr>"
  have "fst (storage_get ref_storage ?st (cache_key_new (conn_method (ref_client_conn Get)) (conn_url (ref_client_conn Get)))) = [?e]"
    by (simp add: mem_get in_memory_get_def ref_mem_env_def ref_moka_def ref_client_conn_def ref_key_def)
  moreover have "age ref_env (entry_policy ref_storage ?e) 1000000000 = None"
    "vary_matches ref_env (entry_policy ref_storage ?e) (conn_request_headers (ref_client_conn Get))"
    "method_is_safe ref_env (conn_method (ref_client_conn Get))" "status_is_server_error ref_env 503"
    by code_simp+
  ultimately show ?thesis
    using client_panics_exactly [of ref_env ref_storage 1000000000 "ref_client_conn Get" ?st ref_served_ops cache_new 1000000000 0 0
        "(ref_client_conn Get)\<lparr>conn_state := Some (Revalidation ?e ref_key), conn_status := Some 503\<rparr>"]
    by (intro exI [of _ ?st] exI [of _ ?e]) simp
qed



end
