(* ===== verification/Server.thy ===== *)
theory Server
  imports Client
begin

section \<open>The server-side handler (\<open>src/server.rs\<close>)\<close>

text \<open>
  The counterpart of the client-side handler on the connections of \<open>trillium\<close>: the key is
  built from scheme, host and path of the request, stale entries are always revalidated
  synchronously, and the reply of the downstream handler is reconciled in \<open>before_send\<close>. The
  lemmas relate both halves to those of the client-side handler.
\<close>

record ('h, 'b, 'w, 'f, 'e) server_conn = "('h, 'b, 'w, 'f, 'e) conn" +
  conn_is_secure :: bool
  conn_host :: "string option"
  conn_path_and_query :: string

definition url_from_conn :: "'h ext \<Rightarrow> ('h, 'b, 'w, 'f, 'e) server_conn \<Rightarrow> url option" where
  "url_from_conn E c =
     (let scheme = (if conn_is_secure c then ''https'' else ''http'')
      in case conn_host c of
           None \<Rightarrow> None
         | Some host \<Rightarrow> url_parse E (scheme @ ''://'' @ host @ conn_path_and_query c))"

fun server_candidates ::
  "'h ext \<Rightarrow> ('h, 's, 'e, 'w, 'b) storage \<Rightarrow> cache_key \<Rightarrow> system_time \<Rightarrow> ('h, 'b, 'w, 'f, 'e) server_conn \<Rightarrow>
   'e list \<Rightarrow> 's \<Rightarrow> (('h, 'b, 'w, 'f, 'e) server_conn \<times> 's) option" where
  "server_candidates E S key now c [] s = Some (c\<lparr>conn_state := Some (Miss key)\<rparr>, s)"
| "server_candidates E S key now c (entry # entries) s =
     (case before_request E (entry_policy S entry) (conn_request_headers c) now of
        None \<Rightarrow> None
      | Some (Fresh cached) \<Rightarrow>
          (let c = c\<lparr>conn_response_headers := cr_headers cached\<rparr>
           in case entry_open S entry s of
                (Inl e, s) \<Rightarrow> Some (c, s)
              | (Inr body, s) \<Rightarrow>
                  Some (c\<lparr>conn_state := Some Hit, conn_status := Some (cr_status cached),
                          conn_response_body := Some (PlainBody body), conn_halted := True\<rparr>, s))
      | Some (ServeNotModified cached) \<Rightarrow>
          Some (c\<lparr>conn_response_headers := cr_headers cached, conn_state := Some Hit,
                  conn_status := Some (cr_status cached),
                  conn_response_body := Some EmptyBody, conn_halted := True\<rparr>, s)
      | Some (Stale request_hs True) \<Rightarrow>
          Some (c\<lparr>conn_request_headers := request_hs,
                  conn_state := Some (Revalidation entry key)\<rparr>, s)
      | Some (Stale _ False) \<Rightarrow> server_candidates E S key now c entries s)"

definition server_run ::
  "'h ext \<Rightarrow> ('h, 's, 'e, 'w, 'b) storage \<Rightarrow> system_time \<Rightarrow> ('h, 'b, 'w, 'f, 'e) server_conn \<Rightarrow> 's \<Rightarrow>
   (('h, 'b, 'w, 'f, 'e) server_conn \<times> 's) option" where
  "server_run E S now c s =
     (case url_from_conn E c of
        None \<Rightarrow> Some (c, s)
      | Some u \<Rightarrow>
          (let key = cache_key_new (conn_method c) u
           in if \<not> method_is_safe E (conn_method c)
              then Some (c\<lparr>conn_state := Some (Unsafe u)\<rparr>, s)
              else let (entries, s) = storage_get S s key
                   in server_candidates E S key now c entries s))"

definition apply_stale ::
  "'h ext \<Rightarrow> ('h, 's, 'e, 'w, 'b) storage \<Rightarrow> ('h, 'b, 'w, 'f, 'e) server_conn \<Rightarrow> 'e \<Rightarrow> system_time \<Rightarrow> 's \<Rightarrow>
   (('h, 'b, 'w, 'f, 'e) server_conn \<times> 's) option" where
  "apply_stale E S c stored now s =
     do {
       cached \<leftarrow> cached_response E (entry_policy S stored) now;
       (case entry_open S stored s of
          (Inl e, s) \<Rightarrow> Some (c, s)
        | (Inr body, s) \<Rightarrow>
            Some (c\<lparr>conn_response_headers := cr_headers cached,
                    conn_status := Some (cr_status cached),
                    conn_response_body := Some (PlainBody body)\<rparr>, s)) }"

definition server_handle_miss ::
  "'h ext \<Rightarrow> ('h, 's, 'e, 'w, 'b) storage \<Rightarrow> ('h, 'b, 'w, 'f) served_ops \<Rightarrow> cache \<Rightarrow> system_time \<Rightarrow>
   ('h, 'b, 'w, 'f, 'e) server_conn \<Rightarrow> cache_key \<Rightarrow> 's \<Rightarrow> (('h, 'b, 'w, 'f, 'e) server_conn \<times> 's) option" where
  "server_handle_miss E S V cch now c key s =
     (case conn_status c of
        None \<Rightarrow> None
      | Some st \<Rightarrow>
          if \<not> is_storable E (conn_method c) (conn_request_headers c) st (conn_response_headers c)
                 (handler_options cch)
          then Some (c, s)
          else if (case Option.bind (conn_response_body c) (served_len V) of
                     None \<Rightarrow> False | Some len \<Rightarrow> max_cacheable_size cch < len)
          then Some (c, s)
          else let pol = policy_new E (conn_method c) (conn_request_headers c) st
                           (conn_response_headers c) now (handler_options cch)
               in case storage_put S s key pol of
                    (Inl e, s) \<Rightarrow> Some (c, s)
                  | (Inr put_handle, s) \<Rightarrow>
                      (case conn_response_body c of
                         None \<Rightarrow> Some (c, s)
                       | Some body \<Rightarrow>
                           (let len = served_len V body;
                                upstream = served_without_framing V body;
                                tee = tee_new upstream put_handle (max_cacheable_size cch)
                            in Some (c\<lparr>conn_response_body := Some (TeedBody tee len)\<rparr>, s))))"

definition server_handle_revalidation ::
  "'h ext \<Rightarrow> ('h, 's, 'e, 'w, 'b) storage \<Rightarrow> ('h, 'b, 'w, 'f) served_ops \<Rightarrow> cache \<Rightarrow> system_time \<Rightarrow>
   system_time \<Rightarrow> ('h, 'b, 'w, 'f, 'e) server_conn \<Rightarrow> 'e \<Rightarrow> cache_key \<Rightarrow> 's \<Rightarrow>
   (('h, 'b, 'w, 'f, 'e) server_conn \<times> 's) option" where
  "server_handle_revalidation E S V cch now now_miss c stored key s =
     (case conn_status c of
        None \<Rightarrow> None
      | Some st \<Rightarrow>
          (case after_response E (entry_policy S stored) (conn_request_headers c) st
                  (conn_response_headers c) now of
             None \<Rightarrow> None
           | Some (Refreshed new_policy cached) \<Rightarrow>
               (case entry_refresh_policy S stored new_policy s of
                  (_, stored, s) \<Rightarrow>
                    (case entry_open S stored s of
                       (Inl e, s) \<Rightarrow> Some (c, s)
                     | (Inr body, s) \<Rightarrow>
                         Some (c\<lparr>conn_response_headers := cr_headers cached,
                                 conn_status := Some (cr_status cached),
                                 conn_response_body := Some (PlainBody body)\<rparr>, s)))
           | Some Modified \<Rightarrow> server_handle_miss E S V cch now_miss c key s))"

definition server_before_send ::
  "'h ext \<Rightarrow> ('h, 's, 'e, 'w, 'b) storage \<Rightarrow> ('h, 'b, 'w, 'f) served_ops \<Rightarrow> cache \<Rightarrow> system_time \<Rightarrow>
   system_time \<Rightarrow> system_time \<Rightarrow> ('h, 'b, 'w, 'f, 'e) server_conn \<Rightarrow> 's \<Rightarrow>
   (('h, 'b, 'w, 'f, 'e) server_conn \<times> 's) option" where
  "server_before_send E S V cch now now_reval now_miss c s =
     (case conn_state c of
        None \<Rightarrow> Some (c, s)
      | Some ctx \<Rightarrow>
          (let c = c\<lparr>conn_state := None\<rparr>
           in case ctx of
                Hit \<Rightarrow> Some (c, s)
              | Revalidation stored key \<Rightarrow>
                  do {
                    serve \<leftarrow> (if is_some_and (conn_status c) (status_is_server_error E)
                              then is_sie_eligible E (entry_policy S stored) now else Some False);
                    if serve then apply_stale E S c stored now s
                    else if conn_status c = None then Some (c, s)
                    else server_handle_revalidation E S V cch now_reval now_miss c stored key s }
              | Miss key \<Rightarrow>
                  if conn_status c = None then Some (c, s)
                  else server_handle_miss E S V cch now_miss c key s
              | Unsafe u \<Rightarrow>
                  (case conn_status c of
                     None \<Rightarrow> Some (c, s)
                   | Some st \<Rightarrow> Some (c, invalidate_unsafe E S u st (conn_response_headers c) s))))"

subsection \<open>Agreement with the client-side handler\<close>

text \<open>The fields both kinds of connection share agree.\<close>

definition same_exchange ::
  "('h, 'b, 'w, 'f, 'e) server_conn \<Rightarrow> ('h, 'b, 'w, 'f, 'e) client_conn \<Rightarrow> bool" where
  "same_exchange c d \<longleftrightarrow> conn.truncate c = conn.truncate d"

lemma same_exchange_sel:
  "same_exchange c d \<longleftrightarrow>
     conn_method c = conn_method d \<and> conn_request_headers c = conn_request_headers d \<and>
     conn_status c = conn_status d \<and> conn_response_headers c = conn_response_headers d \<and>
     conn_response_body c = conn_response_body d \<and> conn_halted c = conn_halted d \<and>
     conn_state c = conn_state d"
  by (auto simp: same_exchange_def conn.truncate_def)

text \<open>Results agree: both panic, or both give the same exchange and the same storage.\<close>

definition same_result ::
  "(('h, 'b, 'w, 'f, 'e) server_conn \<times> 's) option \<Rightarrow> (('h, 'b, 'w, 'f, 'e) client_conn \<times> 's) option \<Rightarrow> bool" where
  "same_result x y = rel_option (rel_prod same_exchange (=)) x y"

lemma same_result_simps [simp]:
  "same_result (Some (c, s)) (Some (d, s')) = (same_exchange c d \<and> s = s')"
  "same_result None None"
  by (simp_all add: same_result_def)

lemma candidates_agree:
  assumes "same_exchange c d"
    and "\<And>e. e \<in> set es \<Longrightarrow> is_swr_eligible E (entry_policy S e) now \<noteq> Some True"
    and "run_candidates E S key now d es s = Some (d', s', tasks)"
  shows "tasks = [] \<and> (\<exists>c'. server_candidates E S key now c es s = Some (c', s') \<and> same_exchange c' d')"
  using assms(2,3)
proof (induction es)
  case Nil
  then show ?case using assms(1) by (auto simp: same_exchange_sel)
next
  case (Cons e es)
  have rq: "conn_request_headers c = conn_request_headers d" using assms(1) by (simp add: same_exchange_sel)
  obtain b where b: "before_request E (entry_policy S e) (conn_request_headers d) now = Some b"
    using Cons.prems by (cases "before_request E (entry_policy S e) (conn_request_headers d) now") auto
  obtain x s1 where o: "entry_open S e s = (x, s1)" by (cases "entry_open S e s")
  show ?case
  proof (cases b)
    case (Fresh r)
    then show ?thesis
      using b o assms(1) Cons.prems(2)
      by (cases x) (simp_all add: rq same_exchange_sel, (elim conjE, hypsubst, simp)+)
  next
    case (ServeNotModified r)
    then show ?thesis using b assms(1) Cons.prems(2) by (simp add: rq same_exchange_sel) (elim conjE, hypsubst, simp)
  next
    case (Stale hs m)
    show ?thesis
    proof (cases m)
      case True
      obtain w where "is_swr_eligible E (entry_policy S e) now = Some w"
        using b Stale True Cons.prems(2) by (cases "is_swr_eligible E (entry_policy S e) now") auto
      with Cons.prems(1) have "is_swr_eligible E (entry_policy S e) now = Some False" by (cases w) auto
      then have "d' = d\<lparr>conn_request_headers := hs, conn_state := Some (Revalidation e key)\<rparr>" "s' = s" "tasks = []"
        using b Stale True Cons.prems(2) by simp_all
      with b Stale True assms(1) show ?thesis by (simp add: rq same_exchange_sel)
    next
      case False
      then show ?thesis using b Stale Cons by (simp add: rq)
    qed
  qed
qed

text \<open>Two checks of the known size of the body agree, and both ways of unframing it.\<close>

definition same_bodies ::
  "'h ext \<Rightarrow> ('h, 'b, 'w, 'f) served_ops \<Rightarrow> ('h, 'b, 'w, 'f, 'e) client_conn \<Rightarrow> bool" where
  "same_bodies E V d \<longleftrightarrow>
     Option.bind (conn_response_body d) (served_len V)
       = Option.bind (headers_get_str E (conn_response_headers d) (Known ContentLength)) parse_u64 \<and>
     (\<forall>b. conn_response_body d = Some b \<longrightarrow> served_without_framing V b = served_unframed V b (served_len V b))"

lemma handle_miss_agree:
  assumes "same_exchange c d" and "same_bodies E V d"
  shows "same_result (server_handle_miss E S V cch now c key s) (client_handle_miss E S V cch now d key s)"
proof (cases "conn_status d")
  case None
  then show ?thesis
    using assms(1) by (simp add: server_handle_miss_def client_handle_miss_def same_exchange_sel)
next
  case (Some st)
  obtain r s1 where p: "storage_put S s key (policy_new E (conn_method d) (conn_request_headers d) st
      (conn_response_headers d) now (handler_options cch)) = (r, s1)"
    by (metis surj_pair)
  show ?thesis
    using assms Some p
    by (cases r; cases "conn_response_body d")
       (simp_all add: server_handle_miss_def client_handle_miss_def same_exchange_sel same_bodies_def Let_def)
qed

lemma handle_revalidation_agree:
  assumes "same_exchange c d" and "same_bodies E V d"
  shows "same_result (server_handle_revalidation E S V cch now now_miss c e key s)
     (client_handle_revalidation E S V cch now now_miss d e key s)"
proof (cases "conn_status d")
  case None
  then show ?thesis
    using assms(1)
    by (simp add: server_handle_revalidation_def client_handle_revalidation_def same_exchange_sel)
next
  case (Some st)
  have same: "conn_status c = Some st" "conn_request_headers c = conn_request_headers d"
    "conn_response_headers c = conn_response_headers d"
    using assms(1) Some by (simp_all add: same_exchange_sel)
  show ?thesis
  proof (cases "after_response E (entry_policy S e) (conn_request_headers d) st (conn_response_headers d) now")
    case None
    then show ?thesis
      using Some same by (simp add: server_handle_revalidation_def client_handle_revalidation_def)
  next
    case ar: (Some a)
    show ?thesis
    proof (cases a)
      case Modified
      then show ?thesis
        using Some same ar handle_miss_agree [OF assms, of S cch now_miss key s]
        by (simp add: server_handle_revalidation_def client_handle_revalidation_def)
    next
      case (Refreshed q head)
      obtain x e1 s1 where rf: "entry_refresh_policy S e q s = (x, e1, s1)" by (metis prod_cases3)
      obtain b s2 where op: "entry_open S e1 s1 = (b, s2)" by (metis surj_pair)
      show ?thesis
        using Some same ar Refreshed rf op assms(1)
        by (cases b) (simp_all add: server_handle_revalidation_def client_handle_revalidation_def same_exchange_sel)
    qed
  qed
qed

lemma apply_stale_agree:
  assumes "same_exchange c d"
  shows "same_result (apply_stale E S c e now s)
     (map_option (\<lambda>(r, d, s). (d, s)) (serve_stale E S d e now s))"
proof (cases "cached_response E (entry_policy S e) now")
  case None
  then show ?thesis by (simp add: apply_stale_def serve_stale_def)
next
  case (Some head)
  obtain b s1 where op: "entry_open S e s = (b, s1)" by (metis surj_pair)
  show ?thesis
    using assms Some op
    by (cases b) (simp_all add: apply_stale_def serve_stale_def same_exchange_sel)
qed

lemma server_candidates_outcome:
  assumes "server_candidates E S key now c es s = Some (c', s')"
    and "\<not> conn_halted c" and "conn_halted c'"
  shows "\<exists>e \<in> set es. conn_state c' = Some Hit \<and>
     ((\<exists>r. before_request E (entry_policy S e) (conn_request_headers c) now = Some (Fresh r) \<and>
         answered_with S e r c') \<or>
      (\<exists>r. before_request E (entry_policy S e) (conn_request_headers c) now = Some (ServeNotModified r) \<and>
         conn_status c' = Some (cr_status r) \<and> conn_response_headers c' = cr_headers r \<and>
         conn_response_body c' = Some EmptyBody))"
  using assms(1)
proof (induction es)
  case Nil
  then show ?case using assms(2,3) by auto
next
  case (Cons e es)
  let ?b = "before_request E (entry_policy S e) (conn_request_headers c) now"
  obtain b where b: "?b = Some b" using Cons.prems by (cases ?b) auto
  show ?case
  proof (cases b)
    case (Fresh r)
    obtain x s1 where o: "entry_open S e s = (x, s1)" by (cases "entry_open S e s")
    show ?thesis
      using Cons.prems b Fresh o assms(2,3) by (cases x) (auto simp: answered_with_def)
  next
    case (ServeNotModified r)
    then show ?thesis using Cons.prems b by auto
  next
    case (Stale hs m)
    then show ?thesis using Cons b assms(2,3) by (cases m) auto
  qed
qed

subsection \<open>Properties\<close>

text \<open>
  C34: the server-side handler answers a request itself only for a safe method with a usable
  URI, from an entry stored under that method and URI whose \<open>Vary\<close> signature matches: with
  the stored head and body if the policy finds it fresh enough, or with a bodiless 304 if the
  condition of the client matches as well. No entry that is due for revalidation is served
  from here, whatever its stale-while-revalidate window.
\<close>

theorem server_hit_sound:
  assumes "server_run E S now c s = Some (c', s')" and "\<not> conn_halted c" and "conn_halted c'"
  shows "method_is_safe E (conn_method c) \<and> conn_state c' = Some Hit \<and>
     (\<exists>u. url_from_conn E c = Some u \<and>
       (\<exists>e \<in> set (fst (storage_get S s (cache_key_new (conn_method c) u))).
          vary_matches E (entry_policy S e) (conn_request_headers c) \<and>
          ((\<exists>r. before_request E (entry_policy S e) (conn_request_headers c) now = Some (Fresh r) \<and>
              answered_with S e r c') \<or>
           (\<exists>r. before_request E (entry_policy S e) (conn_request_headers c) now = Some (ServeNotModified r) \<and>
              conn_status c' = Some (cr_status r) \<and> conn_response_headers c' = cr_headers r \<and>
              conn_response_body c' = Some EmptyBody))))"
proof -
  obtain u where u: "url_from_conn E c = Some u"
    using assms by (cases "url_from_conn E c") (auto simp: server_run_def)
  let ?key = "cache_key_new (conn_method c) u"
  have safe: "method_is_safe E (conn_method c)"
    using assms u by (auto simp: server_run_def Let_def split: if_splits)
  then have "server_candidates E S ?key now c (fst (storage_get S s ?key)) (snd (storage_get S s ?key))
      = Some (c', s')"
    using assms(1) u by (simp add: server_run_def split_def Let_def)
  from server_candidates_outcome [OF this assms(2,3)]
  obtain e where e: "e \<in> set (fst (storage_get S s ?key))" and hit: "conn_state c' = Some Hit"
    and ans: "(\<exists>r. before_request E (entry_policy S e) (conn_request_headers c) now = Some (Fresh r) \<and>
        answered_with S e r c') \<or>
      (\<exists>r. before_request E (entry_policy S e) (conn_request_headers c) now = Some (ServeNotModified r) \<and>
        conn_status c' = Some (cr_status r) \<and> conn_response_headers c' = cr_headers r \<and>
        conn_response_body c' = Some EmptyBody)"
    by blast
  have "vary_matches E (entry_policy S e) (conn_request_headers c)"
    using ans by (auto dest: before_request_FreshD(1) before_request_304D(1))
  with safe hit u e ans show ?thesis by blast
qed

text \<open>The server-side counterpart of the connection the client-side witnesses use.\<close>

definition ref_server_conn ::
  "http_method \<Rightarrow> (hmap, hmap replay_body_source, hmap in_memory_put_handle,
     hmap in_memory_future, hmap in_memory_entry) server_conn" where
  "ref_server_conn m =
     \<lparr>conn_method = m, conn_request_headers = [], conn_status = None, conn_response_headers = [],
      conn_response_body = None, conn_halted = False, conn_state = None,
      conn_is_secure = False, conn_host = Some ''h'', conn_path_and_query = ''/a''\<rparr>"

lemma ref_server_url: "url_from_conn ref_env (ref_server_conn m) = Some ''http://h/a''"
  by (simp add: url_from_conn_def ref_server_conn_def ref_env_def)

lemma ref_same_exchange: "same_exchange (ref_server_conn m) (ref_client_conn m)"
  by (simp add: same_exchange_sel ref_server_conn_def ref_client_conn_def)

theorem server_hit_sound_witness:
  "\<exists>c' s'. server_run ref_env ref_storage 5000000000 (ref_server_conn Get) ref_store = Some (c', s')
     \<and> conn_state c' = Some Hit"
proof -
  have "(case server_run ref_env ref_storage 5000000000 (ref_server_conn Get) ref_store of
      None \<Rightarrow> False | Some (c', s') \<Rightarrow> conn_halted c')"
    by code_simp
  then obtain c' s' where
    r: "server_run ref_env ref_storage 5000000000 (ref_server_conn Get) ref_store = Some (c', s')"
    and h: "conn_halted c'"
    by (auto split: option.splits)
  have "\<not> conn_halted (ref_server_conn Get)" by (simp add: ref_server_conn_def)
  from server_hit_sound [OF r this h] r show ?thesis by blast
qed

text \<open>
  C35: the two handlers make the same decisions before the request: on connections that carry
  the same exchange and URI, unless a stored entry is inside its stale-while-revalidate window,
  which only the client-side handler serves from, the server-side handler does not panic where
  the client-side handler does not, and leaves the same exchange and the same storage; no
  background task is spawned. The converse for panics fails: when a matching entry has no
  representable age and the request says \<open>no-cache\<close>, only the client-side handler, which then
  asks for the stale-while-revalidate window, computes the age.
\<close>

theorem server_run_agrees:
  assumes "url_from_conn E c = Some (conn_url d)" and "same_exchange c d"
    and "\<forall>e \<in> set (fst (storage_get S s (cache_key_new (conn_method d) (conn_url d)))).
       is_swr_eligible E (entry_policy S e) now \<noteq> Some True"
    and "client_run E S now d s = Some (d', s', tasks)"
  shows "tasks = [] \<and> (\<exists>c'. server_run E S now c s = Some (c', s') \<and> same_exchange c' d')"
proof -
  have m: "conn_method c = conn_method d" using assms(2) by (simp add: same_exchange_sel)
  let ?key = "cache_key_new (conn_method d) (conn_url d)"
  show ?thesis
  proof (cases "method_is_safe E (conn_method d)")
    case True
    then have "run_candidates E S ?key now d (fst (storage_get S s ?key)) (snd (storage_get S s ?key))
        = Some (d', s', tasks)"
      using assms(4) by (simp add: client_run_def split_def Let_def)
    from candidates_agree [OF assms(2) bspec [OF assms(3)] this] show ?thesis
      using True assms(1) m by (simp add: server_run_def split_def Let_def)
  next
    case False
    then show ?thesis
      using assms m by (auto simp: server_run_def client_run_def same_exchange_sel)
  qed
qed

theorem server_run_agrees_witness:
  "\<exists>c' d' s'. client_run ref_env ref_storage 5000000000 (ref_client_conn Get) ref_store = Some (d', s', []) \<and>
     server_run ref_env ref_storage 5000000000 (ref_server_conn Get) ref_store = Some (c', s') \<and> same_exchange c' d'"
proof -
  have u: "url_from_conn ref_env (ref_server_conn Get) = Some (conn_url (ref_client_conn Get))"
    by (simp add: ref_server_url ref_client_conn_def)
  have swr: "\<forall>e \<in> set (fst (storage_get ref_storage ref_store
      (cache_key_new (conn_method (ref_client_conn Get)) (conn_url (ref_client_conn Get))))).
      is_swr_eligible ref_env (entry_policy ref_storage e) 5000000000 \<noteq> Some True" by code_simp
  have "(case client_run ref_env ref_storage 5000000000 (ref_client_conn Get) ref_store of
      None \<Rightarrow> False | Some _ \<Rightarrow> True)" by code_simp
  then obtain d' s' tasks where
    r: "client_run ref_env ref_storage 5000000000 (ref_client_conn Get) ref_store = Some (d', s', tasks)"
    by (auto split: option.splits)
  from server_run_agrees [OF u ref_same_exchange swr r] r show ?thesis by blast
qed

text \<open>
  C36: the two handlers make the same decisions after the response: where the client-side
  exchange did not fail in transport and both sides know the same length of the body,
  \<open>before_send\<close> and \<open>after_response\<close> panic on the same inputs and otherwise leave the same
  exchange and the same storage: the same entry stored, refreshed, invalidated or served stale.
\<close>

theorem server_before_send_agrees:
  assumes "same_exchange c d" and "conn_error d = None" and "same_bodies E V d"
  shows "same_result (server_before_send E S V cch now now_reval now_miss c s)
     (client_after_response E S V cch now now_reval now_miss d s)"
proof (cases "conn_state d")
  case None
  then show ?thesis
    using assms(1) by (simp add: server_before_send_def client_after_response_def same_exchange_sel)
next
  case (Some ctx)
  let ?c = "c\<lparr>conn_state := None\<rparr>" and ?d = "d\<lparr>conn_state := None\<rparr>"
  have same: "same_exchange ?c ?d" using assms(1) by (simp add: same_exchange_sel)
  have bodies: "same_bodies E V ?d" using assms(3) by (simp add: same_bodies_def)
  have st: "conn_state c = Some ctx" "conn_status c = conn_status d"
    using assms(1) Some by (simp_all add: same_exchange_sel)
  note defs = server_before_send_def client_after_response_def client_dispatch_def Let_def
  show ?thesis
  proof (cases ctx)
    case Hit
    then show ?thesis using Some st same by (simp add: defs)
  next
    case (Revalidation e key)
    note reval = handle_revalidation_agree [OF same bodies, of S cch now_reval now_miss e key s]
    obtain r where r: "serve_stale E S ?d e now s = r" by blast
    have stale: "same_result (apply_stale E S ?c e now s) (case r of None \<Rightarrow> None
        | Some (Inl err, d, s) \<Rightarrow> Some (d, s) | Some (Inr _, d, s) \<Rightarrow> Some (d\<lparr>conn_error := None\<rparr>, s))"
      using apply_stale_agree [OF same, of E S e now s] r
      by (auto simp: same_result_def same_exchange_sel rel_prod_conv option_rel_Some2
          split: option.split sum.split)
    obtain sie where sie: "is_sie_eligible E (entry_policy S e) now = sie" by blast
    show ?thesis
    proof (cases "is_some_and (conn_status d) (status_is_server_error E)")
      case False
      then show ?thesis using Some st Revalidation same reval assms(2) by (simp add: defs)
    next
      case True
      then show ?thesis
        using Some st Revalidation same reval stale assms(2) r sie
        by (cases sie) (auto simp: defs)
    qed
  next
    case (Miss key)
    then show ?thesis
      using Some st same handle_miss_agree [OF same bodies, of S cch now_miss key s] by (simp add: defs)
  next
    case (Unsafe u)
    then show ?thesis
      using Some st same assms(1) by (auto simp: defs same_exchange_sel)
  qed
qed

theorem server_before_send_agrees_witness:
  "same_result
     (server_before_send ref_env ref_storage ref_served_ops cache_new 0 0 0
       ((ref_server_conn Get)\<lparr>conn_state := Some (Miss ref_key), conn_status := Some 200,
          conn_response_headers := [(Known CacheControl, [Utf8 ''max-age=60''])],
          conn_response_body := Some EmptyBody\<rparr>) ref_store)
     (client_after_response ref_env ref_storage ref_served_ops cache_new 0 0 0
       ((ref_client_conn Get)\<lparr>conn_state := Some (Miss ref_key), conn_status := Some 200,
          conn_response_headers := [(Known CacheControl, [Utf8 ''max-age=60''])],
          conn_response_body := Some EmptyBody\<rparr>) ref_store)"
proof (rule server_before_send_agrees)
  have "headers_get_str ref_env [(Known CacheControl, [Utf8 ''max-age=60''])] (Known ContentLength) = None"
    by code_simp
  then show "same_bodies ref_env ref_served_ops
      ((ref_client_conn Get)\<lparr>conn_state := Some (Miss ref_key), conn_status := Some 200,
        conn_response_headers := [(Known CacheControl, [Utf8 ''max-age=60''])],
        conn_response_body := Some EmptyBody\<rparr>)"
    by (simp add: same_bodies_def ref_served_ops_def)
qed (simp_all add: same_exchange_sel ref_server_conn_def ref_client_conn_def)

end
