(* ===== verification/Tiered.thy ===== *)
theory Tiered
  imports Client
begin

section \<open>The tiered storage (\<open>src/tiered.rs\<close>)\<close>

text \<open>
  \<open>TieredStorage\<close> puts a fast tier over a durable one. The tiers are two records of storage
  operations; the state is that of both tiers and the flush tasks spawned on the runtime.
  Opening an entry of the cold tier promotes it through a teeing reader; finalizing a put
  spawns a task that copies the entry into the cold tier.
\<close>

record ('h, 'hs, 'he, 'hw, 'hf, 'cs, 'ce, 'cw, 'cf, 'b) tiered_storage =
  tier_hot :: "('h, 'hs, 'he, 'hw, 'b) storage"
  tier_hot_put :: "('h, 'hs, 'hw, 'hf) put_handle"
  tier_cold :: "('h, 'cs, 'ce, 'cw, 'b) storage"
  tier_cold_put :: "('h, 'cs, 'cw, 'cf) put_handle"
  tier_body :: "('h, 'b) body_ops"
  tier_body_len :: "'b \<Rightarrow> u64 option"

text \<open>What a spawned flush has moved into it.\<close>

record 'h flush_task =
  ft_key :: cache_key
  ft_policy :: "'h cache_policy"

record ('h, 'hs, 'cs) tiered_state =
  hot_state :: 'hs
  cold_state :: 'cs
  spawned :: "'h flush_task list"

datatype ('he, 'ce) tiered_entry = HotEntry 'he | ColdEntry 'ce cache_key

record ('h, 'hw) tiered_put_handle =
  tph_hot :: 'hw
  tph_key :: cache_key
  tph_policy :: "'h cache_policy"

text \<open>The suspended \<open>finalize\<close>: the hot future, and what the flush will need.\<close>

record ('h, 'hf) tiered_future =
  tf_hot :: 'hf
  tf_key :: cache_key
  tf_policy :: "'h cache_policy"

subsection \<open>The storage\<close>

definition tiered_get ::
  "('h, 'hs, 'he, 'hw, 'hf, 'cs, 'ce, 'cw, 'cf, 'b) tiered_storage \<Rightarrow> ('h, 'hs, 'cs) tiered_state \<Rightarrow>
   cache_key \<Rightarrow> ('he, 'ce) tiered_entry list \<times> ('h, 'hs, 'cs) tiered_state" where
  "tiered_get T s key =
     (case storage_get (tier_hot T) (hot_state s) key of
        (hot, hs) \<Rightarrow>
          (let s = s\<lparr>hot_state := hs\<rparr>
           in if hot \<noteq> [] then (map HotEntry hot, s)
              else case storage_get (tier_cold T) (cold_state s) key of
                     (cold, cs) \<Rightarrow> (map (\<lambda>entry. ColdEntry entry key) cold, s\<lparr>cold_state := cs\<rparr>)))"

definition tiered_put ::
  "('h, 'hs, 'he, 'hw, 'hf, 'cs, 'ce, 'cw, 'cf, 'b) tiered_storage \<Rightarrow> ('h, 'hs, 'cs) tiered_state \<Rightarrow>
   cache_key \<Rightarrow> 'h cache_policy \<Rightarrow> ('h, 'hw) tiered_put_handle io_result \<times> ('h, 'hs, 'cs) tiered_state" where
  "tiered_put T s key pol =
     (case storage_put (tier_hot T) (hot_state s) key pol of
        (Inl e, hs) \<Rightarrow> (Inl e, s\<lparr>hot_state := hs\<rparr>)
      | (Inr hot, hs) \<Rightarrow>
          (Inr \<lparr>tph_hot = hot, tph_key = key, tph_policy = pol\<rparr>, s\<lparr>hot_state := hs\<rparr>))"

definition tiered_invalidate ::
  "('h, 'hs, 'he, 'hw, 'hf, 'cs, 'ce, 'cw, 'cf, 'b) tiered_storage \<Rightarrow> ('h, 'hs, 'cs) tiered_state \<Rightarrow>
   cache_key \<Rightarrow> ('h, 'hs, 'cs) tiered_state" where
  "tiered_invalidate T s key =
     (let s = s\<lparr>hot_state := storage_invalidate (tier_hot T) (hot_state s) key\<rparr>
      in s\<lparr>cold_state := storage_invalidate (tier_cold T) (cold_state s) key\<rparr>)"

subsection \<open>Entries\<close>

fun tiered_policy ::
  "('h, 'hs, 'he, 'hw, 'hf, 'cs, 'ce, 'cw, 'cf, 'b) tiered_storage \<Rightarrow> ('he, 'ce) tiered_entry \<Rightarrow>
   'h cache_policy" where
  "tiered_policy T (HotEntry entry) = entry_policy (tier_hot T) entry"
| "tiered_policy T (ColdEntry entry key) = entry_policy (tier_cold T) entry"

fun tiered_refresh_policy ::
  "('h, 'hs, 'he, 'hw, 'hf, 'cs, 'ce, 'cw, 'cf, 'b) tiered_storage \<Rightarrow> ('he, 'ce) tiered_entry \<Rightarrow>
   'h cache_policy \<Rightarrow> ('h, 'hs, 'cs) tiered_state \<Rightarrow>
   unit io_result \<times> ('he, 'ce) tiered_entry \<times> ('h, 'hs, 'cs) tiered_state" where
  "tiered_refresh_policy T (HotEntry entry) new_policy s =
     (case entry_refresh_policy (tier_hot T) entry new_policy (hot_state s) of
        (r, entry, hs) \<Rightarrow> (r, HotEntry entry, s\<lparr>hot_state := hs\<rparr>))"
| "tiered_refresh_policy T (ColdEntry entry key) new_policy s =
     (case entry_refresh_policy (tier_cold T) entry new_policy (cold_state s) of
        (r, entry, cs) \<Rightarrow> (r, ColdEntry entry key, s\<lparr>cold_state := cs\<rparr>))"

fun tiered_open ::
  "('h, 'hs, 'he, 'hw, 'hf, 'cs, 'ce, 'cw, 'cf, 'b) tiered_storage \<Rightarrow> ('he, 'ce) tiered_entry \<Rightarrow>
   ('h, 'hs, 'cs) tiered_state \<Rightarrow>
   ('h, 'b, 'hw, 'hf) served_body io_result \<times> ('h, 'hs, 'cs) tiered_state" where
  "tiered_open T (HotEntry entry) s =
     (case entry_open (tier_hot T) entry (hot_state s) of
        (r, hs) \<Rightarrow> (map_sum id PlainBody r, s\<lparr>hot_state := hs\<rparr>))"
| "tiered_open T (ColdEntry entry key) s =
     (let pol = entry_policy (tier_cold T) entry
      in case entry_open (tier_cold T) entry (cold_state s) of
           (Inl e, cs) \<Rightarrow> (Inl e, s\<lparr>cold_state := cs\<rparr>)
         | (Inr cold_body, cs) \<Rightarrow>
             (let s = s\<lparr>cold_state := cs\<rparr>;
                  len = tier_body_len T cold_body
              in case storage_put (tier_hot T) (hot_state s) key pol of
                   (Inr put_handle, hs) \<Rightarrow>
                     (Inr (TeedBody (tee_new cold_body put_handle (- 1)) len), s\<lparr>hot_state := hs\<rparr>)
                 | (Inl e, hs) \<Rightarrow> (Inr (PlainBody cold_body), s\<lparr>hot_state := hs\<rparr>)))"

subsection \<open>The put handle\<close>

definition tiered_poll_write ::
  "('h, 'hs, 'he, 'hw, 'hf, 'cs, 'ce, 'cw, 'cf, 'b) tiered_storage \<Rightarrow> ('h, 'hw) tiered_put_handle \<Rightarrow>
   bytes \<Rightarrow> nat io_result poll \<times> ('h, 'hw) tiered_put_handle" where
  "tiered_poll_write T w buf =
     (case poll_write (tier_hot_put T) (tph_hot w) buf of (r, hot) \<Rightarrow> (r, w\<lparr>tph_hot := hot\<rparr>))"

definition tiered_finalize ::
  "('h, 'hs, 'he, 'hw, 'hf, 'cs, 'ce, 'cw, 'cf, 'b) tiered_storage \<Rightarrow> ('h, 'hw) tiered_put_handle \<Rightarrow>
   'h option \<Rightarrow> ('h, 'hf) tiered_future" where
  "tiered_finalize T w trailers =
     \<lparr>tf_hot = finalize (tier_hot_put T) (tph_hot w) trailers, tf_key = tph_key w, tf_policy = tph_policy w\<rparr>"

definition tiered_poll_finalize ::
  "('h, 'hs, 'he, 'hw, 'hf, 'cs, 'ce, 'cw, 'cf, 'b) tiered_storage \<Rightarrow> ('h, 'hf) tiered_future \<Rightarrow>
   ('h, 'hs, 'cs) tiered_state \<Rightarrow>
   unit io_result poll \<times> ('h, 'hf) tiered_future \<times> ('h, 'hs, 'cs) tiered_state" where
  "tiered_poll_finalize T fut s =
     (case poll_finalize (tier_hot_put T) (tf_hot fut) (hot_state s) of
        (Pending, hot, hs) \<Rightarrow> (Pending, fut\<lparr>tf_hot := hot\<rparr>, s\<lparr>hot_state := hs\<rparr>)
      | (Ready (Inl e), hot, hs) \<Rightarrow> (Ready (Inl e), fut\<lparr>tf_hot := hot\<rparr>, s\<lparr>hot_state := hs\<rparr>)
      | (Ready (Inr _), hot, hs) \<Rightarrow>
          (Ready (Inr ()), fut\<lparr>tf_hot := hot\<rparr>,
           s\<lparr>hot_state := hs,
             spawned := spawned s @ [\<lparr>ft_key = tf_key fut, ft_policy = tf_policy fut\<rparr>]\<rparr>))"

subsection \<open>The flush\<close>

partial_function (option) flush_loop ::
  "('h, 'u) body_ops \<Rightarrow> ('h, 's, 'w, 'f) put_handle \<Rightarrow> 'u \<Rightarrow> 'w \<Rightarrow>
   (unit io_result \<times> 'u \<times> 'w) option" where
  "flush_loop B H body put =
     (case await_read B 8192 body of
        None \<Rightarrow> None
      | Some (Inl e, body) \<Rightarrow> Some (Inl e, body, put)
      | Some (Inr bs, body) \<Rightarrow>
          if bs = [] then Some (Inr (), body, put)
          else case write_all H put bs of
                 None \<Rightarrow> None
               | Some (Inl e, put) \<Rightarrow> Some (Inl e, body, put)
               | Some (Inr _, put) \<Rightarrow> flush_loop B H body put)"

definition flush_to_cold ::
  "('h, 'hs, 'he, 'hw, 'hf, 'cs, 'ce, 'cw, 'cf, 'b) tiered_storage \<Rightarrow> 'h flush_task \<Rightarrow>
   ('h, 'hs, 'cs) tiered_state \<Rightarrow> (unit io_result \<times> ('h, 'hs, 'cs) tiered_state) option" where
  "flush_to_cold T task s =
     (case storage_get (tier_hot T) (hot_state s) (ft_key task) of
        (entries, hs) \<Rightarrow>
          (let s = s\<lparr>hot_state := hs\<rparr>
           in case find (\<lambda>entry. same_variant_as (entry_policy (tier_hot T) entry) (ft_policy task)) entries of
                None \<Rightarrow> Some (Inr (), s)
              | Some entry \<Rightarrow>
                  (case entry_open (tier_hot T) entry (hot_state s) of
                     (Inl e, hs) \<Rightarrow> Some (Inl e, s\<lparr>hot_state := hs\<rparr>)
                   | (Inr body, hs) \<Rightarrow>
                       (let s = s\<lparr>hot_state := hs\<rparr>
                        in case storage_put (tier_cold T) (cold_state s) (ft_key task) (ft_policy task) of
                             (Inl e, cs) \<Rightarrow> Some (Inl e, s\<lparr>cold_state := cs\<rparr>)
                           | (Inr put, cs) \<Rightarrow>
                               (let s = s\<lparr>cold_state := cs\<rparr>
                                in case flush_loop (tier_body T) (tier_cold_put T) body put of
                                     None \<Rightarrow> None
                                   | Some (Inl e, body, put) \<Rightarrow> Some (Inl e, s)
                                   | Some (Inr _, body, put) \<Rightarrow>
                                       (let (trailers, body) = body_trailers (tier_body T) body
                                        in map_option (\<lambda>(r, cs). (r, s\<lparr>cold_state := cs\<rparr>))
                                             (await_finalize (tier_cold_put T)
                                               (finalize (tier_cold_put T) put trailers)
                                               (cold_state s))))))))"

subsection \<open>The tiered storage as a storage\<close>

definition tiered_storage_ops ::
  "('h, 'hs, 'he, 'hw, 'hf, 'cs, 'ce, 'cw, 'cf, 'b) tiered_storage \<Rightarrow>
   ('h, ('h, 'hs, 'cs) tiered_state, ('he, 'ce) tiered_entry, ('h, 'hw) tiered_put_handle,
    ('h, 'b, 'hw, 'hf) served_body) storage" where
  "tiered_storage_ops T =
     \<lparr>storage_get = tiered_get T, storage_put = tiered_put T, storage_invalidate = tiered_invalidate T,
      entry_policy = tiered_policy T, entry_refresh_policy = tiered_refresh_policy T,
      entry_open = tiered_open T\<rparr>"

definition tiered_put_ops ::
  "('h, 'hs, 'he, 'hw, 'hf, 'cs, 'ce, 'cw, 'cf, 'b) tiered_storage \<Rightarrow>
   ('h, ('h, 'hs, 'cs) tiered_state, ('h, 'hw) tiered_put_handle, ('h, 'hf) tiered_future) put_handle" where
  "tiered_put_ops T =
     \<lparr>poll_write = tiered_poll_write T, finalize = tiered_finalize T,
      poll_finalize = tiered_poll_finalize T\<rparr>"

subsection \<open>What happens to the two tiers\<close>

text \<open>
  The steps of the system: operations of the storage's clients, polls of the finalize of a
  promotion, and the steps of a flush task.
\<close>

datatype ('h, 'he, 'hf, 'ce, 'cf) tiered_event =
    Request "('h, ('he, 'ce) tiered_entry, ('h, 'hf) tiered_future) store_op"
  | PromotePoll 'hf
  | FlushGet cache_key
  | FlushOpen 'he
  | FlushPut cache_key "'h cache_policy"
  | FlushPoll 'cf

definition on_hot ::
  "('h, 'hs, 'he, 'hw, 'hf, 'cs, 'ce, 'cw, 'cf, 'b) tiered_storage \<Rightarrow> ('h, 'he, 'hf) store_op \<Rightarrow>
   ('h, 'hs, 'cs) tiered_state \<Rightarrow> ('h, 'hs, 'cs) tiered_state" where
  "on_hot T op s = s\<lparr>hot_state := apply_op (tier_hot T) (tier_hot_put T) op (hot_state s)\<rparr>"

definition on_cold ::
  "('h, 'hs, 'he, 'hw, 'hf, 'cs, 'ce, 'cw, 'cf, 'b) tiered_storage \<Rightarrow> ('h, 'ce, 'cf) store_op \<Rightarrow>
   ('h, 'hs, 'cs) tiered_state \<Rightarrow> ('h, 'hs, 'cs) tiered_state" where
  "on_cold T op s = s\<lparr>cold_state := apply_op (tier_cold T) (tier_cold_put T) op (cold_state s)\<rparr>"

fun apply_event ::
  "('h, 'hs, 'he, 'hw, 'hf, 'cs, 'ce, 'cw, 'cf, 'b) tiered_storage \<Rightarrow>
   ('h, 'he, 'hf, 'ce, 'cf) tiered_event \<Rightarrow> ('h, 'hs, 'cs) tiered_state \<Rightarrow> ('h, 'hs, 'cs) tiered_state" where
  "apply_event T (Request op) s = apply_op (tiered_storage_ops T) (tiered_put_ops T) op s"
| "apply_event T (PromotePoll f) s = on_hot T (OpPollFinalize f) s"
| "apply_event T (FlushGet k) s = on_hot T (OpGet k) s"
| "apply_event T (FlushOpen e) s = on_hot T (OpOpen e) s"
| "apply_event T (FlushPut k q) s = on_cold T (OpPut k q) s"
| "apply_event T (FlushPoll f) s = on_cold T (OpPollFinalize f) s"

text \<open>Any of these steps, interleaved with evictions in either tier.\<close>

inductive tiered_reach ::
  "('h, 'hs, 'he, 'hw, 'hf, 'cs, 'ce, 'cw, 'cf, 'b) tiered_storage \<Rightarrow> ('he \<Rightarrow> 'h variant) \<Rightarrow>
   ('ce \<Rightarrow> 'h variant) \<Rightarrow> ('h, 'hs, 'cs) tiered_state \<Rightarrow>
   ('h, 'he, 'hf, 'ce, 'cf) tiered_event list \<Rightarrow> ('h, 'hs, 'cs) tiered_state \<Rightarrow> bool"
  for T hev cev s0 where
  start: "tiered_reach T hev cev s0 [] s0"
| step: "tiered_reach T hev cev s0 evs s \<Longrightarrow> tiered_reach T hev cev s0 (x # evs) (apply_event T x s)"
| evict: "tiered_reach T hev cev s0 evs s \<Longrightarrow>
    (\<And>k. subseq (visible (tier_hot T) hev (hot_state s') k) (visible (tier_hot T) hev (hot_state s) k)) \<Longrightarrow>
    (\<And>k. subseq (visible (tier_cold T) cev (cold_state s') k) (visible (tier_cold T) cev (cold_state s) k)) \<Longrightarrow>
    tiered_reach T hev cev s0 evs s'"

text \<open>The operation each step stands for, on entries and futures of either tier.\<close>

fun event_op ::
  "('h, 'he, 'hf, 'ce, 'cf) tiered_event \<Rightarrow> ('h, 'he + 'ce, 'hf + 'cf) store_op" where
  "event_op (Request (OpGet k)) = OpGet k"
| "event_op (Request (OpPut k q)) = OpPut k q"
| "event_op (Request (OpInvalidate k)) = OpInvalidate k"
| "event_op (Request (OpRefresh (HotEntry e) q)) = OpRefresh (Inl e) q"
| "event_op (Request (OpRefresh (ColdEntry e k) q)) = OpRefresh (Inr e) q"
| "event_op (Request (OpOpen (HotEntry e))) = OpOpen (Inl e)"
| "event_op (Request (OpOpen (ColdEntry e k))) = OpOpen (Inr e)"
| "event_op (Request (OpPollFinalize f)) = OpPollFinalize (Inl (tf_hot f))"
| "event_op (PromotePoll f) = OpPollFinalize (Inl f)"
| "event_op (FlushGet k) = OpGet k"
| "event_op (FlushOpen e) = OpOpen (Inl e)"
| "event_op (FlushPut k q) = OpPut k q"
| "event_op (FlushPoll f) = OpPollFinalize (Inr f)"

text \<open>
  What a step does to each tier: nothing, the operation it stands for, or an operation that
  adds no entry. A lookup reaches the cold tier only if the hot one has nothing, and opening
  a cold entry opens a put in the hot tier.
\<close>

fun hot_op ::
  "('h, 'hs, 'he, 'hw, 'hf, 'cs, 'ce, 'cw, 'cf, 'b) tiered_storage \<Rightarrow> ('h, 'hs, 'cs) tiered_state \<Rightarrow>
   ('h, 'he, 'hf, 'ce, 'cf) tiered_event \<Rightarrow> ('h, 'he, 'hf) store_op option" where
  "hot_op T s (Request (OpGet k)) = Some (OpGet k)"
| "hot_op T s (Request (OpPut k q)) = Some (OpPut k q)"
| "hot_op T s (Request (OpInvalidate k)) = Some (OpInvalidate k)"
| "hot_op T s (Request (OpRefresh (HotEntry e) q)) = Some (OpRefresh e q)"
| "hot_op T s (Request (OpRefresh (ColdEntry e k) q)) = None"
| "hot_op T s (Request (OpOpen (HotEntry e))) = Some (OpOpen e)"
| "hot_op T s (Request (OpOpen (ColdEntry e k))) =
     (case fst (entry_open (tier_cold T) e (cold_state s)) of
        Inl err \<Rightarrow> None | Inr body \<Rightarrow> Some (OpPut k (entry_policy (tier_cold T) e)))"
| "hot_op T s (Request (OpPollFinalize f)) = Some (OpPollFinalize (tf_hot f))"
| "hot_op T s (PromotePoll f) = Some (OpPollFinalize f)"
| "hot_op T s (FlushGet k) = Some (OpGet k)"
| "hot_op T s (FlushOpen e) = Some (OpOpen e)"
| "hot_op T s (FlushPut k q) = None"
| "hot_op T s (FlushPoll f) = None"

fun cold_op ::
  "('h, 'hs, 'he, 'hw, 'hf, 'cs, 'ce, 'cw, 'cf, 'b) tiered_storage \<Rightarrow> ('h, 'hs, 'cs) tiered_state \<Rightarrow>
   ('h, 'he, 'hf, 'ce, 'cf) tiered_event \<Rightarrow> ('h, 'ce, 'cf) store_op option" where
  "cold_op T s (Request (OpGet k)) =
     (if fst (storage_get (tier_hot T) (hot_state s) k) = [] then Some (OpGet k) else None)"
| "cold_op T s (Request (OpInvalidate k)) = Some (OpInvalidate k)"
| "cold_op T s (Request (OpRefresh (ColdEntry e k) q)) = Some (OpRefresh e q)"
| "cold_op T s (Request (OpOpen (ColdEntry e k))) = Some (OpOpen e)"
| "cold_op T s (FlushPut k q) = Some (OpPut k q)"
| "cold_op T s (FlushPoll f) = Some (OpPollFinalize f)"
| "cold_op T s _ = None"

definition apply_opt ::
  "('h, 's, 'e, 'w, 'b) storage \<Rightarrow> ('h, 's, 'w, 'f) put_handle \<Rightarrow> ('h, 'e, 'f) store_op option \<Rightarrow> 's \<Rightarrow> 's" where
  "apply_opt S P op s = (case op of None \<Rightarrow> s | Some op \<Rightarrow> apply_op S P op s)"

lemma apply_opt_simps [simp]:
  "apply_opt S P None s = s"
  "apply_opt S P (Some op) s = apply_op S P op s"
  by (simp_all add: apply_opt_def)

lemmas tiered_ops_simps =
  tiered_storage_ops_def tiered_put_ops_def tiered_get_def tiered_put_def tiered_invalidate_def
  tiered_poll_finalize_def on_hot_def on_cold_def

lemma apply_event_tiers:
  "hot_state (apply_event T x s) = apply_opt (tier_hot T) (tier_hot_put T) (hot_op T s x) (hot_state s)"
  "cold_state (apply_event T x s) = apply_opt (tier_cold T) (tier_cold_put T) (cold_op T s x) (cold_state s)"
  by (induction T s x rule: hot_op.induct)
     (auto simp: tiered_ops_simps Let_def split: prod.split sum.split poll.split)

text \<open>Operations that add no entry, and operations on the entries of one of the tiers.\<close>

fun adds_nothing :: "('h, 'e, 'f) store_op \<Rightarrow> bool" where
  "adds_nothing (OpGet k) = True"
| "adds_nothing (OpPut k q) = True"
| "adds_nothing (OpOpen e) = True"
| "adds_nothing _ = False"

fun embed_op :: "('e \<Rightarrow> 'e2) \<Rightarrow> ('f \<Rightarrow> 'f2) \<Rightarrow> ('h, 'e, 'f) store_op \<Rightarrow> ('h, 'e2, 'f2) store_op" where
  "embed_op i j (OpGet k) = OpGet k"
| "embed_op i j (OpPut k q) = OpPut k q"
| "embed_op i j (OpInvalidate k) = OpInvalidate k"
| "embed_op i j (OpRefresh e q) = OpRefresh (i e) q"
| "embed_op i j (OpOpen e) = OpOpen (i e)"
| "embed_op i j (OpPollFinalize f) = OpPollFinalize (j f)"

definition tier_step :: "('e \<Rightarrow> 'e2) \<Rightarrow> ('f \<Rightarrow> 'f2) \<Rightarrow> ('h, 'e, 'f) store_op option \<Rightarrow> ('h, 'e2, 'f2) store_op \<Rightarrow> bool" where
  "tier_step i j op x \<longleftrightarrow>
     (case op of
        None \<Rightarrow> \<forall>k. x \<noteq> OpInvalidate k
      | Some op \<Rightarrow> adds_nothing op \<and> (\<forall>k. x \<noteq> OpInvalidate k) \<or> x = embed_op i j op)"

lemma event_tier_steps:
  "tier_step Inl Inl (hot_op T s x) (event_op x)" "tier_step Inr Inr (cold_op T s x) (event_op x)"
  by (induction T s x rule: hot_op.induct) (auto simp: tier_step_def split: sum.split)

context cache_storage
begin

lemma tier_step_origin:
  assumes "ok p" and "tier_step i j op x"
    and "\<And>v. v \<in> set (visible (S p) ev s k) \<Longrightarrow> committed ek' fk' fv' ops k v"
    and "\<And>e. ek' (i e) = ek e" and "\<And>f. fk' (j f) = fk f" and "\<And>f. fv' (j f) = fv f"
    and "v \<in> set (visible (S p) ev (apply_opt (S p) (P p) op s) k)"
  shows "committed ek' fk' fv' (x # ops) k v"
proof (cases op)
  case None
  then show ?thesis using assms(2,3,7) by (auto simp: tier_step_def intro: committed_Cons)
next
  case (Some y)
  then have "v \<in> set (visible (S p) ev (apply_op (S p) (P p) y s) k)" using assms(7) by simp
  with assms(1) show ?thesis
  proof (cases rule: apply_op_new)
    case 1
    then have "x \<noteq> OpInvalidate k" using assms(2) Some by (cases y) (auto simp: tier_step_def)
    then show ?thesis using committed_Cons assms(3) 1 by blast
  next
    case (2 f)
    then have "x = OpPollFinalize (j f)" using assms(2) Some by (simp add: tier_step_def)
    then show ?thesis using committed_commit [of fk' "j f" k ek' fv' ops] 2 assms(5,6) by simp
  next
    case (3 e q u)
    then have "x = OpRefresh (i e) q" using assms(2) Some by (simp add: tier_step_def)
    then show ?thesis using committed_refresh [OF assms(3), of u "i e" q] 3 assms(4) by simp
  qed
qed

lemma apply_opt_distinct:
  "ok p \<Longrightarrow> distinct_variants (visible (S p) ev s k) \<Longrightarrow>
     distinct_variants (visible (S p) ev (apply_opt (S p) (P p) op s) k)"
  using apply_op_distinct by (cases op) simp_all

end

subsection \<open>Lemmas: the flush\<close>

context put_writer
begin

text \<open>The loop of the flush has written \<open>d\<close>; what it has written at the end.\<close>

lemma flush_loop_copies:
  assumes "ok p" and "byte_source (body_poll_read B) rem"
    and "flush_loop B (P p) u w = Some (r, u', w')" and "content w = d"
  shows "wk w' = wk w \<and> wp w' = wp w \<and> (r = Inr () \<longrightarrow> content w' = d @ rem u)"
proof -
  let ?Q = "\<lambda>B' H u w y. \<forall>d. B' = B \<longrightarrow> H = P p \<longrightarrow> content w = d \<longrightarrow>
     wk (snd (snd y)) = wk w \<and> wp (snd (snd y)) = wp w \<and>
     (fst y = Inr () \<longrightarrow> content (snd (snd y)) = d @ rem u)"
  have "?Q B (P p) u w (r, u', w')"
  proof (rule flush_loop.raw_induct [where P = ?Q, OF _ assms(3)])
    fix f B' H u w y
    assume IH: "\<And>B' H u w y. f B' H u w = Some y \<Longrightarrow> ?Q B' H u w y"
      and eq: "(case await_read B' 8192 u of
          None \<Rightarrow> None
        | Some (Inl e, body) \<Rightarrow> Some (Inl e, body, w)
        | Some (Inr bs, body) \<Rightarrow>
            if bs = [] then Some (Inr (), body, w)
            else case write_all H w bs of
                   None \<Rightarrow> None
                 | Some (Inl e, put) \<Rightarrow> Some (Inl e, body, put)
                 | Some (Inr _, put) \<Rightarrow> f B' H body put) = Some y"
    show "?Q B' H u w y"
    proof (intro allI impI)
      fix d assume B: "B' = B" "H = P p" and c: "content w = d"
      obtain x u1 where x: "await_read B 8192 u = Some (x, u1)"
        using eq B by (cases "await_read B 8192 u") auto
      note rd = await_read_source [OF assms(2) zero_less_numeral x]
      show "wk (snd (snd y)) = wk w \<and> wp (snd (snd y)) = wp w \<and>
         (fst y = Inr () \<longrightarrow> content (snd (snd y)) = d @ rem u)"
      proof (cases x)
        case (Inl e)
        then show ?thesis using eq B x by auto
      next
        case (Inr bs)
        show ?thesis
        proof (cases "bs = []")
          case True
          then show ?thesis using eq B x Inr rd c by auto
        next
          case False
          obtain z v where v: "write_all (P p) w bs = Some (z, v)"
            using eq B x Inr False by (cases "write_all (P p) w bs") auto
          note wa = write_all_content [OF assms(1) v]
          show ?thesis
          proof (cases z)
            case (Inl e)
            then show ?thesis using eq B x Inr False v wa \<open>x = Inr bs\<close> by auto
          next
            case z: (Inr _)
            have step: "f B (P p) u1 v = Some y" using eq B x Inr False v z by simp
            have "content v = d @ bs" using wa c z by simp
            from IH [OF step, rule_format, OF refl refl this] show ?thesis
              using rd Inr wa by simp
          qed
        qed
      qed
    qed
  qed
  then show ?thesis using assms(4) by simp
qed

end

text \<open>What a flush does, step by step.\<close>

lemma flush_to_cold_cases:
  assumes "flush_to_cold T task s = Some (r, s')"
  defines "get \<equiv> storage_get (tier_hot T) (hot_state s) (ft_key task)"
  obtains (same) "cold_state s' = cold_state s"
  | (put) "cold_state s' = snd (storage_put (tier_cold T) (cold_state s) (ft_key task) (ft_policy task))"
  | (commit) e body put hs u w tr where "e \<in> set (fst get)"
      "same_variant_as (entry_policy (tier_hot T) e) (ft_policy task)"
      "entry_open (tier_hot T) e (snd get) = (Inr body, hs)"
      "storage_put (tier_cold T) (cold_state s) (ft_key task) (ft_policy task) = (Inr put, snd (storage_put (tier_cold T) (cold_state s) (ft_key task) (ft_policy task)))"
      "flush_loop (tier_body T) (tier_cold_put T) body put = Some (Inr (), u, w)"
      "tr = fst (body_trailers (tier_body T) u)"
      "await_finalize (tier_cold_put T) (finalize (tier_cold_put T) w tr)
         (snd (storage_put (tier_cold T) (cold_state s) (ft_key task) (ft_policy task))) = Some (r, cold_state s')"
proof -
  obtain es hs where g: "get = (es, hs)" by (cases get)
  note g' = g [unfolded get_def]
  let ?find = "find (\<lambda>e. same_variant_as (entry_policy (tier_hot T) e) (ft_policy task)) es"
  show ?thesis
  proof (cases ?find)
    case None
    then show ?thesis using assms(1) g' same by (auto simp: flush_to_cold_def Let_def)
  next
    case (Some e)
    then have e: "e \<in> set es" "same_variant_as (entry_policy (tier_hot T) e) (ft_policy task)"
      by (auto simp: find_Some_iff)
    obtain x hs1 where o: "entry_open (tier_hot T) e hs = (x, hs1)" by (metis surj_pair)
    obtain y cs where pt: "storage_put (tier_cold T) (cold_state s) (ft_key task) (ft_policy task) = (y, cs)"
      by (metis surj_pair)
    show ?thesis
    proof (cases x)
      case (Inl err)
      then show ?thesis using assms(1) g' Some o same by (auto simp: flush_to_cold_def Let_def)
    next
      case (Inr body)
      show ?thesis
      proof (cases y)
        case (Inl err)
        then show ?thesis using assms(1) g' Some o pt put \<open>x = Inr body\<close> by (auto simp: flush_to_cold_def Let_def)
      next
        case y: (Inr w0)
        obtain z u w where fl: "flush_loop (tier_body T) (tier_cold_put T) body w0 = Some (z, u, w)"
          using assms(1) g' Some o pt Inr y
          by (cases "flush_loop (tier_body T) (tier_cold_put T) body w0") (auto simp: flush_to_cold_def Let_def)
        show ?thesis
        proof (cases z)
          case (Inl err)
          then show ?thesis
            using assms(1) g' Some o pt \<open>x = Inr body\<close> y fl put by (auto simp: flush_to_cold_def Let_def)
        next
          case z: (Inr _)
          have "await_finalize (tier_cold_put T)
              (finalize (tier_cold_put T) w (fst (body_trailers (tier_body T) u))) cs = Some (r, cold_state s')"
            using assms(1) g' Some o pt Inr y fl z by (auto simp: flush_to_cold_def Let_def split_def)
          then show ?thesis using commit [of e body hs1 w0 u w] e g o pt Inr y fl z by simp
        qed
      qed
    qed
  qed
qed

subsection \<open>What the tiers hold\<close>

text \<open>The variants of a key in either tier, and the content of an entry a lookup returns.\<close>

definition tiered_held ::
  "('h, 'hs, 'he, 'hw, 'hf, 'cs, 'ce, 'cw, 'cf, 'b) tiered_storage \<Rightarrow> ('he \<Rightarrow> 'h variant) \<Rightarrow>
   ('ce \<Rightarrow> 'h variant) \<Rightarrow> ('h, 'hs, 'cs) tiered_state \<Rightarrow> cache_key \<Rightarrow> 'h variant set" where
  "tiered_held T hev cev s k =
     set (visible (tier_hot T) hev (hot_state s) k) \<union> set (visible (tier_cold T) cev (cold_state s) k)"

fun tiered_variant ::
  "('he \<Rightarrow> 'h variant) \<Rightarrow> ('ce \<Rightarrow> 'h variant) \<Rightarrow> ('he, 'ce) tiered_entry \<Rightarrow> 'h variant" where
  "tiered_variant hev cev (HotEntry e) = hev e"
| "tiered_variant hev cev (ColdEntry e k) = cev e"

lemma tiered_get_visible:
  "map (tiered_variant hev cev) (fst (tiered_get T s k)) =
     (if visible (tier_hot T) hev (hot_state s) k = [] then visible (tier_cold T) cev (cold_state s) k
      else visible (tier_hot T) hev (hot_state s) k)"
  by (auto simp: tiered_get_def visible_def Let_def o_def split: prod.split)

subsection \<open>The contract of a pair of tiers\<close>

text \<open>
  Two storages that keep the contract of a backend, where opening a hot entry gives a reader
  of the stored body.
\<close>

locale two_tiers =
  hot: streaming_storage ok "\<lambda>p. tier_hot (T p)" "\<lambda>p. tier_hot_put (T p)" hek hev hcontent hwk hwp hfk hfv +
  cold: streaming_storage ok "\<lambda>p. tier_cold (T p)" "\<lambda>p. tier_cold_put (T p)" cek cev ccontent cwk cwp cfk cfv
  for ok :: "'p \<Rightarrow> bool"
    and T :: "'p \<Rightarrow> ('h, 'hs, 'he, 'hw, 'hf, 'cs, 'ce, 'cw, 'cf, 'b) tiered_storage"
    and hek :: "'he \<Rightarrow> cache_key" and hev :: "'he \<Rightarrow> 'h variant" and hcontent :: "'hw \<Rightarrow> bytes"
    and hwk :: "'hw \<Rightarrow> cache_key" and hwp :: "'hw \<Rightarrow> 'h cache_policy"
    and hfk :: "'hf \<Rightarrow> cache_key" and hfv :: "'hf \<Rightarrow> 'h variant"
    and cek :: "'ce \<Rightarrow> cache_key" and cev :: "'ce \<Rightarrow> 'h variant" and ccontent :: "'cw \<Rightarrow> bytes"
    and cwk :: "'cw \<Rightarrow> cache_key" and cwp :: "'cw \<Rightarrow> 'h cache_policy"
    and cfk :: "'cf \<Rightarrow> cache_key" and cfv :: "'cf \<Rightarrow> 'h variant" +
  fixes remaining :: "'b \<Rightarrow> bytes"
  assumes body_source: "ok p \<Longrightarrow> byte_source (body_poll_read (tier_body (T p))) remaining"
    and hot_open_body: "ok p \<Longrightarrow> entry_open (tier_hot (T p)) e s = (Inr b, s') \<Longrightarrow> remaining b = v_body (hev e)"
begin

abbreviation tier_committed ::
  "('h, 'he, 'hf, 'ce, 'cf) tiered_event list \<Rightarrow> cache_key \<Rightarrow> 'h variant \<Rightarrow> bool" where
  "tier_committed evs \<equiv>
     committed (case_sum hek cek) (case_sum hfk cfk) (case_sum hfv cfv) (map event_op evs)"

lemma held_step:
  assumes "ok p" and "\<And>v. v \<in> tiered_held (T p) hev cev s k \<Longrightarrow> tier_committed evs k v"
    and "v \<in> tiered_held (T p) hev cev (apply_event (T p) x s) k"
  shows "tier_committed (x # evs) k v"
proof -
  let ?ek = "case_sum hek cek" and ?fk = "case_sum hfk cfk" and ?fv = "case_sum hfv cfv"
  consider "v \<in> set (visible (tier_hot (T p)) hev
      (apply_opt (tier_hot (T p)) (tier_hot_put (T p)) (hot_op (T p) s x) (hot_state s)) k)"
    | "v \<in> set (visible (tier_cold (T p)) cev
      (apply_opt (tier_cold (T p)) (tier_cold_put (T p)) (cold_op (T p) s x) (cold_state s)) k)"
    using assms(3) by (auto simp: tiered_held_def apply_event_tiers)
  then show ?thesis
  proof cases
    case 1
    have "committed ?ek ?fk ?fv (event_op x # map event_op evs) k v"
      by (rule hot.tier_step_origin [OF assms(1) event_tier_steps(1) _ _ _ _ 1])
         (use assms(2) in \<open>auto simp: tiered_held_def\<close>)
    then show ?thesis by simp
  next
    case 2
    have "committed ?ek ?fk ?fv (event_op x # map event_op evs) k v"
      by (rule cold.tier_step_origin [OF assms(1) event_tier_steps(2) _ _ _ _ 2])
         (use assms(2) in \<open>auto simp: tiered_held_def\<close>)
    then show ?thesis by simp
  qed
qed

lemma tiered_reach_held:
  assumes "tiered_reach (T p) hev cev s0 evs s" and "ok p" and "\<And>k. tiered_held (T p) hev cev s0 k = {}" and "v \<in> tiered_held (T p) hev cev s k"
  shows "tier_committed evs k v"
  using assms(1,4)
proof (induction arbitrary: v k rule: tiered_reach.induct)
  case start
  then show ?case using assms(3) by simp
next
  case (step evs s x)
  show ?case using held_step [OF assms(2) step.IH step.prems] .
next
  case (evict evs s s')
  have "v \<in> tiered_held (T p) hev cev s k"
    using evict.prems set_subseq [OF evict.hyps(2)] set_subseq [OF evict.hyps(3)] by (auto simp: tiered_held_def)
  then show ?case using evict.IH by blast
qed

lemma tiered_reach_distinct:
  assumes "tiered_reach (T p) hev cev s0 evs s" and "ok p" and "\<And>k. tiered_held (T p) hev cev s0 k = {}"
  shows "distinct_variants (visible (tier_hot (T p)) hev (hot_state s) k) \<and>
     distinct_variants (visible (tier_cold (T p)) cev (cold_state s) k)"
  using assms(1)
proof (induction arbitrary: k rule: tiered_reach.induct)
  case start
  then show ?case using assms(3) [of k] by (auto simp: tiered_held_def distinct_variants_def)
next
  case (step evs s x)
  then show ?case
    using hot.apply_opt_distinct [OF assms(2)] cold.apply_opt_distinct [OF assms(2)]
    by (simp add: apply_event_tiers)
next
  case (evict evs s s')
  then show ?case using distinct_variants_subseq by blast
qed

lemma lookup_committed:
  assumes "tiered_reach (T p) hev cev s0 evs s" and "ok p" and "\<And>k. tiered_held (T p) hev cev s0 k = {}"
    and "e \<in> set (fst (tiered_get (T p) s k))"
  shows "tier_committed evs k (tiered_variant hev cev e)"
proof -
  have "tiered_variant hev cev e \<in> set (map (tiered_variant hev cev) (fst (tiered_get (T p) s k)))"
    using assms(4) by simp
  then have "tiered_variant hev cev e \<in> tiered_held (T p) hev cev s k"
    unfolding tiered_get_visible by (auto simp: tiered_held_def split: if_splits)
  then show ?thesis using tiered_reach_held [OF assms(1-3)] by blast
qed

lemma lookup_distinct:
  assumes "tiered_reach (T p) hev cev s0 evs s" and "ok p" and "\<And>k. tiered_held (T p) hev cev s0 k = {}"
  shows "distinct_variants (map (tiered_variant hev cev) (fst (tiered_get (T p) s k)))"
  using tiered_reach_distinct [OF assms, of k] unfolding tiered_get_visible by simp

lemma entry_policy_variant: "ok p \<Longrightarrow> tiered_policy (T p) e = v_policy (tiered_variant hev cev e)"
  using hot.entry_policy_law cold.entry_policy_law by (cases e) simp_all

text \<open>The flush commits the body the hot tier holds for the variant, under the policy of its task.\<close>

lemma flush_commits:
  assumes "ok p" and "flush_to_cold (T p) task s = Some (r, s')"
  shows "(\<forall>k. subseq (visible (tier_cold (T p)) cev (cold_state s') k)
          (visible (tier_cold (T p)) cev (cold_state s) k)) \<or>
     (\<exists>e f cs. e \<in> set (fst (storage_get (tier_hot (T p)) (hot_state s) (ft_key task))) \<and>
        same_variant_as (v_policy (hev e)) (ft_policy task) \<and>
        cfk f = ft_key task \<and> v_policy (cfv f) = ft_policy task \<and> v_body (cfv f) = v_body (hev e) \<and>
        (\<forall>k. subseq (visible (tier_cold (T p)) cev cs k) (visible (tier_cold (T p)) cev (cold_state s) k)) \<and>
        await_finalize (tier_cold_put (T p)) f cs = Some (r, cold_state s'))"
  using assms(2)
proof (cases rule: flush_to_cold_cases)
  case same
  then show ?thesis by simp
next
  case put
  then show ?thesis using cold.put_law [OF assms(1)] by simp
next
  case (commit e body w0 hs u w tr)
  let ?put = "storage_put (tier_cold (T p)) (cold_state s) (ft_key task) (ft_policy task)"
  have w0: "ccontent w0 = []" "cwk w0 = ft_key task" "cwp w0 = ft_policy task"
    using cold.put_opens [OF assms(1) commit(4)] by blast+
  have w: "cwk w = ft_key task" "cwp w = ft_policy task" "ccontent w = v_body (hev e)"
    using cold.flush_loop_copies [OF assms(1) body_source [OF assms(1)] commit(5) w0(1)] w0
      hot_open_body [OF assms(1) commit(3)] by auto
  have "subseq (visible (tier_cold (T p)) cev (snd ?put) k) (visible (tier_cold (T p)) cev (cold_state s) k)" for k
    using cold.put_law [OF assms(1)] .
  moreover have "same_variant_as (v_policy (hev e)) (ft_policy task)"
    using commit(2) hot.entry_policy_law [OF assms(1)] by simp
  ultimately show ?thesis
    using commit(1,7) w cold.finalize_key [OF assms(1)] cold.finalize_content [OF assms(1)]
    by (intro disjI2 exI [of _ e] exI [of _ "finalize (tier_cold_put (T p)) w tr"] exI [of _ "snd ?put"]) simp
qed

end

text \<open>The put handle of a tiered storage keeps the contract of a put handle.\<close>

sublocale two_tiers \<subseteq> tiered: put_writer ok "\<lambda>p. tiered_put_ops (T p)"
  "\<lambda>w. hcontent (tph_hot w)" "\<lambda>w. hwk (tph_hot w)" "\<lambda>w. hwp (tph_hot w)"
  "\<lambda>f. hfk (tf_hot f)" "\<lambda>f. hfv (tf_hot f)"
proof (unfold_locales, goal_cases)
  case (1 p w buf r w')
  then show ?case
    using hot.write_keeps [OF 1(1), of "tph_hot w" buf r "tph_hot w'"]
    by (auto simp: tiered_put_ops_def tiered_poll_write_def split: prod.splits)
next
  case (2 p w buf w')
  then show ?case
    using hot.write_pending [OF 2(1), of "tph_hot w" buf "tph_hot w'"]
    by (auto simp: tiered_put_ops_def tiered_poll_write_def split: prod.splits)
next
  case (3 p w buf n w')
  then show ?case
    using hot.write_ok [OF 3(1), of "tph_hot w" buf n "tph_hot w'"]
    by (auto simp: tiered_put_ops_def tiered_poll_write_def split: prod.splits)
next
  case (4 p w t)
  then show ?case using hot.finalize_key by (simp add: tiered_put_ops_def tiered_finalize_def)
next
  case (5 p w t)
  then show ?case using hot.finalize_content by (simp add: tiered_put_ops_def tiered_finalize_def)
next
  case (6 p f s f' s')
  then show ?case
    using hot.finalize_stays [OF 6(1), of "tf_hot f" "hot_state s" "tf_hot f'" "hot_state s'"]
    by (auto simp: tiered_put_ops_def tiered_poll_finalize_def split: prod.splits poll.splits sum.splits)
qed

subsection \<open>An in-memory tier over an in-memory tier\<close>

text \<open>Both tiers in memory, with the reader of \<open>src/memory.rs\<close> as their bodies.\<close>

definition replay_body_ops :: "('h, 'h replay_body_source) body_ops" where
  "replay_body_ops = \<lparr>body_poll_read = replay_read, body_trailers = replay_trailers\<rparr>"

type_synonym ('c, 'd, 'h) replay_env = "('c, 'd, 'h, 'h replay_body_source) mem_env"

definition memory_tiers ::
  "('c, 'd, 'h) replay_env \<times> ('k, 'l, 'h) replay_env \<Rightarrow>
   ('h, 'c, 'h in_memory_entry, 'h in_memory_put_handle, 'h in_memory_future,
    'k, 'h in_memory_entry, 'h in_memory_put_handle, 'h in_memory_future, 'h replay_body_source) tiered_storage" where
  "memory_tiers p =
     \<lparr>tier_hot = in_memory_storage_ops (fst p), tier_hot_put = in_memory_put_ops (fst p),
      tier_cold = in_memory_storage_ops (snd p), tier_cold_put = in_memory_put_ops (snd p),
      tier_body = replay_body_ops,
      tier_body_len = (\<lambda>b. Some (word_of_nat (length (rbs_body b))))\<rparr>"

definition memory_tiers_ok :: "('c, 'd, 'h) replay_env \<times> ('k, 'l, 'h) replay_env \<Rightarrow> bool" where
  "memory_tiers_ok p \<longleftrightarrow> mem_ok (fst p) \<and> mem_ok (snd p) \<and> me_new_body (fst p) = (\<lambda>src len. src)"

interpretation mem_tiers: two_tiers memory_tiers_ok memory_tiers
  ime_key ime_variant imp_buffer imp_key imp_policy future_key future_variant
  ime_key ime_variant imp_buffer imp_key imp_policy future_key future_variant replay_remaining
proof (intro two_tiers.intro two_tiers_axioms.intro, goal_cases)
  case 1
  show ?case
    unfolding memory_tiers_def tiered_storage.simps
    by (rule streaming_storage_reindex [OF mem_store.streaming_storage_axioms, of _ fst])
       (simp add: memory_tiers_ok_def)
next
  case 2
  show ?case
    unfolding memory_tiers_def tiered_storage.simps
    by (rule streaming_storage_reindex [OF mem_store.streaming_storage_axioms, of _ snd])
       (simp add: memory_tiers_ok_def)
next
  case (3 p)
  show ?case using replay.byte_source_axioms by (simp add: memory_tiers_def replay_body_ops_def)
next
  case (4 p e s b s')
  then show ?case
    by (auto simp: memory_tiers_def memory_tiers_ok_def mem_sel in_memory_open_def Let_def replay_remaining_def)
qed

subsection \<open>Lemmas: flushing between in-memory tiers\<close>

lemma replay_body_trailers [simp]: "body_trailers replay_body_ops = replay_trailers"
  by (simp add: replay_body_ops_def)

lemma await_replay:
  assumes "rbs_position src \<le> length (rbs_body src)"
  obtains src' where "await_read replay_body_ops n src = Some (Inr (take n (replay_remaining src)), src')"
    and "replay_remaining src' = drop n (replay_remaining src)"
    and "rbs_position src' \<le> length (rbs_body src')" and "rbs_trailers src' = rbs_trailers src"
proof -
  from assms obtain src' where s: "replay_poll_read src n = Some (Ready (Inr (take n (replay_remaining src))), src')"
    "replay_remaining src' = drop n (replay_remaining src)" "rbs_position src' \<le> length (rbs_body src')"
    by (rule replay_step)
  have "rbs_trailers src' = rbs_trailers src"
    using s(1) by (auto simp: replay_poll_read_def Let_def split: if_splits)
  moreover have "await_read replay_body_ops n src = Some (Inr (take n (replay_remaining src)), src')"
    using s(1) by (subst await_read.simps) (simp add: replay_body_ops_def replay_read_def)
  ultimately show ?thesis using that s(2,3) by blast
qed

lemma flush_loop_memory:
  assumes "rbs_position src \<le> length (rbs_body src)"
  shows "\<exists>src'. flush_loop replay_body_ops (in_memory_put_ops p) src w =
       Some (Inr (), src', w\<lparr>imp_buffer := imp_buffer w @ replay_remaining src\<rparr>) \<and>
     rbs_trailers src' = rbs_trailers src"
  using assms
proof (induction "length (replay_remaining src)" arbitrary: src w rule: less_induct)
  case less
  from less.prems obtain src1 where
    r: "await_read replay_body_ops 8192 src = Some (Inr (take 8192 (replay_remaining src)), src1)"
    and rem: "replay_remaining src1 = drop 8192 (replay_remaining src)"
    and pos: "rbs_position src1 \<le> length (rbs_body src1)" and tr: "rbs_trailers src1 = rbs_trailers src"
    by (rule await_replay)
  show ?case
  proof (cases "replay_remaining src = []")
    case True
    then show ?thesis using r tr by (simp add: flush_loop.simps [of replay_body_ops _ src])
  next
    case False
    let ?w = "w\<lparr>imp_buffer := imp_buffer w @ take 8192 (replay_remaining src)\<rparr>"
    have wr: "write_all (in_memory_put_ops p) w (take 8192 (replay_remaining src)) = Some (Inr (), ?w)"
      using False
      by (simp add: write_all.simps [of _ w "take 8192 (replay_remaining src)"] write_all.simps [of _ ?w "[]"]
          in_memory_put_ops_def in_memory_poll_write_def)
    have "length (replay_remaining src1) < length (replay_remaining src)" using rem False by simp
    from less.hyps [OF this pos, of ?w] show ?thesis
      using r wr tr rem False
      by (simp add: flush_loop.simps [of replay_body_ops _ src])
  qed
qed

subsection \<open>Properties\<close>

text \<open>
  C12: whatever the clients of a tiered storage, its promotions and its flushes have done, and
  whatever either tier has evicted, each entry a lookup returns has the body and trailers of
  a finalize under that key (of a put, a promotion or a flush) with no invalidation of the
  key since, its policy is from that finalize or a later refresh of the variant, and no two
  entries have the same \<open>Vary\<close> signature.
\<close>

theorem tiered_lookup_sound:
  assumes "two_tiers ok T hek hev hcontent hwk hwp hfk hfv cek cev ccontent cwk cwp cfk cfv rem" and "ok p"
    and "\<forall>k. tiered_held (T p) hev cev s0 k = {}" and "tiered_reach (T p) hev cev s0 evs s"
    and "e \<in> set (fst (tiered_get (T p) s k))"
  shows "committed (case_sum hek cek) (case_sum hfk cfk) (case_sum hfv cfv) (map event_op evs) k
       (tiered_variant hev cev e) \<and>
     distinct (map (\<lambda>e. vary_snapshot (tiered_policy (T p) e)) (fst (tiered_get (T p) s k)))"
proof -
  have "tiered_policy (T p) e = v_policy (tiered_variant hev cev e)" for e
    using two_tiers.entry_policy_variant [OF assms(1,2)] .
  then show ?thesis
    using two_tiers.lookup_committed [OF assms(1,4,2) spec [OF assms(3)] assms(5)]
      two_tiers.lookup_distinct [OF assms(1,4,2) spec [OF assms(3)], of k]
    by (simp add: distinct_variants_def o_def)
qed

text \<open>A tiered storage whose hot tier holds one entry, for the witnesses.\<close>

abbreviation ref_tiers where
  "ref_tiers \<equiv> memory_tiers (ref_mem_env, ref_mem_env)"

lemma ref_tiers_ok: "memory_tiers_ok (ref_mem_env, ref_mem_env)"
  using ref_mem_ok by (simp add: memory_tiers_ok_def ref_mem_env_def)

definition ref_tiered_future :: "(hmap, hmap in_memory_future) tiered_future" where
  "ref_tiered_future = \<lparr>tf_hot = ref_future, tf_key = ref_key, tf_policy = ref_policy ''max-age=600'' 0\<rparr>"

theorem tiered_lookup_sound_witness:
  "\<exists>e. e \<in> set (fst (tiered_get ref_tiers
         (apply_event ref_tiers (Request (OpPollFinalize ref_tiered_future))
            \<lparr>hot_state = (\<lambda>k. None), cold_state = (\<lambda>k. None), spawned = []\<rparr>) ref_key)) \<and>
     v_body (tiered_variant ime_variant ime_variant e) = [104, 105]"
proof -
  let ?init = "\<lparr>hot_state = (\<lambda>k. None), cold_state = (\<lambda>k. None), spawned = []\<rparr>"
  let ?x = "Request (OpPollFinalize ref_tiered_future)"
  let ?s = "apply_event ref_tiers ?x ?init"
  have r: "tiered_reach ref_tiers ime_variant ime_variant ?init [?x] ?s" by (rule tiered_reach.step [OF tiered_reach.start])
  have h0: "\<forall>k. tiered_held ref_tiers ime_variant ime_variant ?init k = {}"
    by (simp add: tiered_held_def memory_tiers_def bucket_of_def ref_mem_env_def ref_moka_def)
  have "fst (tiered_get ref_tiers ?s ref_key) \<noteq> []"
    by (simp add: tiered_ops_simps memory_tiers_def in_memory_storage_ops_def in_memory_put_ops_def
        in_memory_get_def finalize_eq ref_tiered_future_def ref_mem_env_def ref_moka_def spec_commit_def
        ref_future_def future_key_def)
  then obtain e where e: "e \<in> set (fst (tiered_get ref_tiers ?s ref_key))"
    by (metis list.set_intros(1) neq_Nil_conv)
  from tiered_lookup_sound [OF mem_tiers.two_tiers_axioms ref_tiers_ok h0 r e]
  have "v_body (tiered_variant ime_variant ime_variant e) = [104, 105]"
    by (auto simp: committed_def Cons_eq_append_conv ref_tiered_future_def ref_future_def future_variant_def)
  with e show ?thesis by blast
qed

text \<open>
  A flush leaves the cold tier with what a put of the hot tier's current body for the
  variant commits, under the key and the policy of the flush, or adds nothing to it. The
  policy is that of the put that spawned the flush; the body is the one the hot tier holds
  when the flush runs.
\<close>

theorem flush_copies_hot_entry:
  assumes "two_tiers ok T hek hev hcontent hwk hwp hfk hfv cek cev ccontent cwk cwp cfk cfv rem" and "ok p"
    and "flush_to_cold (T p) task s = Some (r, s')"
  shows "(\<forall>k. subseq (visible (tier_cold (T p)) cev (cold_state s') k)
          (visible (tier_cold (T p)) cev (cold_state s) k)) \<or>
     (\<exists>e f cs. e \<in> set (fst (storage_get (tier_hot (T p)) (hot_state s) (ft_key task))) \<and>
        same_variant_as (v_policy (hev e)) (ft_policy task) \<and>
        cfk f = ft_key task \<and> v_policy (cfv f) = ft_policy task \<and> v_body (cfv f) = v_body (hev e) \<and>
        (\<forall>k. subseq (visible (tier_cold (T p)) cev cs k) (visible (tier_cold (T p)) cev (cold_state s) k)) \<and>
        await_finalize (tier_cold_put (T p)) f cs = Some (r, cold_state s'))"
  using two_tiers.flush_commits [OF assms] .

text \<open>The hot tier holds one entry; a flush of an older response for the same variant.\<close>

definition ref_tiered_state ::
  "(hmap, cache_key \<Rightarrow> hmap bucket option, cache_key \<Rightarrow> hmap bucket option) tiered_state" where
  "ref_tiered_state = \<lparr>hot_state = ref_store, cold_state = (\<lambda>k. None), spawned = []\<rparr>"

definition ref_task :: "hmap flush_task" where
  "ref_task = \<lparr>ft_key = ref_key, ft_policy = ref_policy ''max-age=1'' 0\<rparr>"

lemma ref_same_variant: "same_variant_as (ref_policy ''max-age=600'' 0) (ref_policy ''max-age=1'' 0)"
  by code_simp

theorem flush_copies_hot_entry_witness:
  "\<exists>r s'. flush_to_cold ref_tiers ref_task ref_tiered_state = Some (r, s') \<and>
     ((\<forall>k. subseq (visible ref_storage ime_variant (cold_state s') k) []) \<or>
      (\<exists>f cs. v_policy (future_variant f) = ref_policy ''max-age=1'' 0 \<and> v_body (future_variant f) = [104, 105] \<and>
        await_finalize (in_memory_put_ops ref_mem_env) f cs = Some (r, cold_state s')))"
proof -
  obtain r s' where f: "flush_to_cold ref_tiers ref_task ref_tiered_state = Some (r, s')"
    using ref_same_variant
    by (simp add: flush_to_cold_def memory_tiers_def mem_sel mem_put_sel mem_get in_memory_get_def
        ref_mem_env_def ref_moka_def ref_tiered_state_def ref_task_def ref_store_def ref_future_def
        future_variant_def in_memory_policy_def in_memory_open_def in_memory_put_def Let_def
        flush_loop.simps await_read.simps write_all.simps await_finalize.simps replay_body_ops_def
        replay_read_def replay_poll_read_def replay_trailers_def in_memory_poll_write_def finalize_eq)
  from flush_copies_hot_entry [OF mem_tiers.two_tiers_axioms ref_tiers_ok f] f show ?thesis
    by (auto simp: ref_tiered_state_def ref_task_def memory_tiers_def mem_get in_memory_get_def ref_store_def
        ref_mem_env_def ref_moka_def bucket_of_def ref_future_def future_variant_def)
qed

text \<open>
  C37: between in-memory tiers that lose nothing the write-back completes: if the hot tier holds
  an entry of the variant, the flush returns without an error and the cold tier then holds
  the hot body and trailers, under the policy of the flush. When another response for the
  same variant has been stored since, that policy and this body belong to different responses.
\<close>

theorem flush_writes_back:
  assumes "mem_lossless ph" and "mem_lossless pc" and "me_new_body ph = (\<lambda>src len. src)"
    and "me_keeps pc (cold_state s)"
    and "find (\<lambda>v. same_variant_as (v_policy v) (ft_policy task))
           (visible (in_memory_storage_ops ph) ime_variant (hot_state s) (ft_key task)) = Some v"
  shows "\<exists>s'. flush_to_cold (memory_tiers (ph, pc)) task s = Some (Inr (), s') \<and>
     (\<forall>k. visible (in_memory_storage_ops pc) ime_variant (cold_state s') k =
        (let vs = visible (in_memory_storage_ops pc) ime_variant (cold_state s) k
         in if k = ft_key task
            then spec_commit \<lparr>v_policy = ft_policy task, v_body = v_body v, v_trailers = v_trailers v\<rparr> vs
            else vs))"
proof -
  let ?T = "memory_tiers (ph, pc)" and ?k = "ft_key task" and ?q = "ft_policy task"
  obtain es hs where g: "in_memory_get (me_moka ph) (hot_state s) ?k = (es, hs)" by (metis surj_pair)
  then have "find (\<lambda>v. same_variant_as (v_policy v) ?q) (map ime_variant es) = Some v"
    using assms(5) by (simp add: visible_def in_memory_storage_ops_def del: visible_in_memory)
  then obtain e where e: "find (\<lambda>e. same_variant_as (in_memory_policy e) ?q) es = Some e" "ime_variant e = v"
    by (auto simp: find_map_eq in_memory_policy_def o_def)
  let ?src = "\<lparr>rbs_body = v_body v, rbs_position = 0, rbs_trailers = v_trailers v\<rparr>"
  let ?w = "\<lparr>imp_key = ?k, imp_policy = ?q, imp_buffer = v_body v\<rparr>"
  obtain src' where fl: "flush_loop replay_body_ops (in_memory_put_ops pc) ?src
      \<lparr>imp_key = ?k, imp_policy = ?q, imp_buffer = []\<rparr> = Some (Inr (), src', ?w)"
    and tr: "rbs_trailers src' = v_trailers v"
    using flush_loop_memory [of ?src pc "\<lparr>imp_key = ?k, imp_policy = ?q, imp_buffer = []\<rparr>"]
    by (auto simp: replay_remaining_def)
  let ?cs = "apply_op (in_memory_storage_ops pc) (in_memory_put_ops pc)
      (OpPollFinalize (?w, v_trailers v)) (cold_state s)"
  have fin: "await_finalize (in_memory_put_ops pc) (?w, v_trailers v) (cold_state s) = Some (Inr (), ?cs)"
    by (subst await_finalize.simps) (simp add: mem_put_sel finalize_eq)
  have o: "in_memory_open (me_new_body ph) e hs = (Inr ?src, hs)"
    using assms(3) e(2) by (simp add: in_memory_open_def Let_def)
  have "flush_to_cold ?T task s = Some (Inr (), s\<lparr>hot_state := hs, cold_state := ?cs\<rparr>)"
    using g e o fl tr fin
    by (simp add: flush_to_cold_def memory_tiers_def mem_sel mem_put_sel mem_get Let_def
        replay_trailers_def in_memory_put_def)
  then show ?thesis
    using mem_exact.exact_law [OF assms(2,4), of "OpPollFinalize (?w, v_trailers v)"]
    by (auto simp: Let_def future_key_def future_variant_def)
qed

theorem flush_writes_back_witness:
  "\<exists>s'. flush_to_cold ref_tiers ref_task ref_tiered_state = Some (Inr (), s') \<and>
     visible ref_storage ime_variant (cold_state s') ref_key =
       [\<lparr>v_policy = ref_policy ''max-age=1'' 0, v_body = [104, 105], v_trailers = None\<rparr>]"
proof -
  have keeps: "me_keeps ref_mem_env (cold_state ref_tiered_state)"
    "me_new_body ref_mem_env = (\<lambda>src len. src)"
    by (simp_all add: ref_mem_env_def)
  have found: "find (\<lambda>v. same_variant_as (v_policy v) (ft_policy ref_task))
      (visible ref_storage ime_variant (hot_state ref_tiered_state) (ft_key ref_task))
      = Some (future_variant ref_future)"
    using ref_same_variant
    by (simp add: ref_tiered_state_def ref_task_def bucket_of_def ref_store_def ref_mem_env_def ref_moka_def
        future_variant_def ref_future_def)
  from flush_writes_back [OF ref_mem_lossless ref_mem_lossless keeps(2,1) found] show ?thesis
    by (auto simp: ref_tiered_state_def ref_task_def bucket_of_def spec_commit_def ref_mem_env_def ref_moka_def
        future_variant_def ref_future_def Let_def)
qed

text \<open>
  C13: opening a cold entry promotes it: over an in-memory hot tier that loses nothing and holds
  nothing under the key, the reader of the opened body gets the cold body, reading to the end
  returns, and the next lookup of the key shows exactly the promoted response, with the same
  bytes and the trailers the reader got. It shows nothing else: other variants the cold tier
  holds under the key are hidden by the promoted one.
\<close>

theorem promotion_serves_from_hot:
  assumes "mem_lossless ph" and "tier_hot T = in_memory_storage_ops ph" and "tier_hot_put T = in_memory_put_ops ph"
    and "me_keeps ph (hot_state s)" and "visible (tier_hot T) ime_variant (hot_state s) k = []"
    and "byte_source (body_poll_read (tier_body T)) rem" and "always_ready (tier_body T)"
    and "0 < n" and "n < 2 ^ 64"
    and "entry_open (tier_cold T) e (cold_state s) = (Inr body, cs)" and "length (rem body) < 2 ^ 64"
  shows "\<exists>t len s1 t' hs. tiered_open T (ColdEntry e k) s = (Inr (TeedBody t len), s1) \<and>
     tee_read_to_end (tier_body T) (tier_hot_put T) n t (hot_state s1) = Some (Inr (rem body), t', hs) \<and>
     map (tiered_variant ime_variant cev) (fst (tiered_get T (s1\<lparr>hot_state := hs\<rparr>) k)) =
       [\<lparr>v_policy = entry_policy (tier_cold T) e, v_body = rem body, v_trailers = tee_trailers t'\<rparr>]"
proof -
  let ?pol = "entry_policy (tier_cold T) e"
  let ?w = "\<lparr>imp_key = k, imp_policy = ?pol, imp_buffer = []\<rparr>"
  let ?t = "tee_new body ?w (- 1)"
  have cap: "unat (- 1 :: u64) = 2 ^ 64 - 1" by code_simp
  have o: "tiered_open T (ColdEntry e k) s =
      (Inr (TeedBody ?t (tier_body_len T body)), s\<lparr>cold_state := cs, hot_state := hot_state s\<rparr>)"
    using assms(10) by (simp add: assms(2) mem_sel in_memory_put_def)
  obtain t' hs where r: "tee_read_to_end (tier_body T) (tier_hot_put T) n ?t (hot_state s) =
      Some (Inr (rem body), t', hs)"
    and vis: "visible (tier_hot T) ime_variant hs k =
      [\<lparr>v_policy = ?pol, v_body = rem body, v_trailers = tee_trailers t'\<rparr>]"
    using mem_tee_commits [OF assms(1,4,6-9), of body "- 1" k ?pol] assms(5,11) cap
    unfolding assms(2,3) by (auto simp: spec_commit_def)
  from vis have "map (tiered_variant ime_variant cev)
      (fst (tiered_get T (s\<lparr>cold_state := cs, hot_state := hs\<rparr>) k)) =
      [\<lparr>v_policy = ?pol, v_body = rem body, v_trailers = tee_trailers t'\<rparr>]"
    unfolding tiered_get_visible by simp
  then show ?thesis using o r by fastforce
qed

text \<open>A cold tier with two variants, of which one is promoted.\<close>

definition ref_sibling :: "hmap variant" where
  "ref_sibling =
     \<lparr>v_policy = (ref_policy ''max-age=600'' 0)\<lparr>vary_snapshot := [(''accept'', Some ''b'')]\<rparr>,
      v_body = [98], v_trailers = None\<rparr>"

definition ref_cold_state ::
  "(hmap, cache_key \<Rightarrow> hmap bucket option, cache_key \<Rightarrow> hmap bucket option) tiered_state" where
  "ref_cold_state = \<lparr>hot_state = (\<lambda>k. None),
     cold_state = (\<lambda>k. None)(ref_key := Some [future_variant ref_future, ref_sibling]), spawned = []\<rparr>"

definition ref_bytes_env :: "(cache_key \<Rightarrow> hmap bucket option, unit, hmap, bytes) mem_env" where
  "ref_bytes_env = \<lparr>me_moka = ref_moka, me_new_body = (\<lambda>src len. replay_remaining src), me_keeps = (\<lambda>c. True)\<rparr>"

definition ref_byte_tiers where
  "ref_byte_tiers =
     \<lparr>tier_hot = in_memory_storage_ops ref_bytes_env, tier_hot_put = in_memory_put_ops ref_bytes_env,
      tier_cold = in_memory_storage_ops ref_bytes_env, tier_cold_put = in_memory_put_ops ref_bytes_env,
      tier_body = ref_body_ops, tier_body_len = (\<lambda>b. None)\<rparr>"

lemma ref_bytes_lossless: "mem_lossless ref_bytes_env"
  by (auto simp: mem_lossless_def moka_laws_def moka_lossless_def ref_bytes_env_def ref_moka_def
      split: moka_op.split)

theorem promotion_serves_from_hot_witness:
  "length (fst (tiered_get ref_byte_tiers ref_cold_state ref_key)) = 2 \<and>
   (\<exists>t len s1 t' hs.
      tiered_open ref_byte_tiers
        (ColdEntry \<lparr>ime_variant = future_variant ref_future, ime_key = ref_key\<rparr> ref_key) ref_cold_state
        = (Inr (TeedBody t len), s1) \<and>
      tee_read_to_end ref_body_ops (in_memory_put_ops ref_bytes_env) 8 t (hot_state s1)
        = Some (Inr [104, 105], t', hs) \<and>
      length (fst (tiered_get ref_byte_tiers (s1\<lparr>hot_state := hs\<rparr>) ref_key)) = 1)"
proof -
  let ?e = "\<lparr>ime_variant = future_variant ref_future, ime_key = ref_key\<rparr>"
  have sel: "tier_hot ref_byte_tiers = in_memory_storage_ops ref_bytes_env"
    "tier_hot_put ref_byte_tiers = in_memory_put_ops ref_bytes_env" "tier_body ref_byte_tiers = ref_body_ops"
    by (simp_all add: ref_byte_tiers_def)
  have keeps: "me_keeps ref_bytes_env (hot_state ref_cold_state)"
    and empty: "visible (tier_hot ref_byte_tiers) ime_variant (hot_state ref_cold_state) ref_key = []"
    by (simp_all add: ref_bytes_env_def sel ref_cold_state_def bucket_of_def ref_moka_def)
  have src: "byte_source (body_poll_read (tier_body ref_byte_tiers)) id" "always_ready (tier_body ref_byte_tiers)"
    using ref_body_source by (simp_all add: sel always_ready_def ref_body_ops_def)
  have o: "entry_open (tier_cold ref_byte_tiers) ?e (cold_state ref_cold_state)
      = (Inr [104, 105], cold_state ref_cold_state)"
    by (simp add: ref_byte_tiers_def mem_sel in_memory_open_def ref_bytes_env_def future_variant_def ref_future_def
        replay_remaining_def)
  have two: "length (fst (tiered_get ref_byte_tiers ref_cold_state ref_key)) = 2"
    by (simp add: tiered_get_def ref_byte_tiers_def mem_get in_memory_get_def ref_bytes_env_def ref_moka_def
        ref_cold_state_def)
  have one: "map (tiered_variant ime_variant (ime_variant :: hmap in_memory_entry \<Rightarrow> _)) es = [v] \<Longrightarrow> length es = 1"
    for es :: "(hmap in_memory_entry, hmap in_memory_entry) tiered_entry list" and v
    by auto
  from promotion_serves_from_hot [where cev = ime_variant, OF ref_bytes_lossless sel(1,2) keeps empty src _ _ o, of 8]
  have "\<exists>t len s1 t' hs. tiered_open ref_byte_tiers (ColdEntry ?e ref_key) ref_cold_state = (Inr (TeedBody t len), s1) \<and>
      tee_read_to_end ref_body_ops (in_memory_put_ops ref_bytes_env) 8 t (hot_state s1) = Some (Inr [104, 105], t', hs) \<and>
      length (fst (tiered_get ref_byte_tiers (s1\<lparr>hot_state := hs\<rparr>) ref_key)) = 1"
    unfolding sel using one by fastforce
  with two show ?thesis by blast
qed

end
