(* ===== verification/File_System.thy ===== *)
theory File_System
  imports Prelude "HOL-Library.AList"
begin

section \<open>The file system (\<open>src/fs_shims.rs\<close> and \<open>std::fs\<close>)\<close>

text \<open>
  The shims forward to the asynchronous versions of the functions of \<open>std::fs\<close>, which the
  blocking parts of \<open>src/fs.rs\<close> call directly. A path is the list of its components. The
  file system holds the contents of the files, in directory order, and the directories. Any
  call may fail: an oracle says for the \<open>n\<close>-th call whether it fails, with which error, and
  how far it got before it failed. A handle returned by \<open>open\<close> reads the contents the
  file had then.
\<close>

type_synonym path = "string list"

definition join_path :: "path \<Rightarrow> string \<Rightarrow> path" where
  "join_path dir name = dir @ [name]"

definition parent :: "path \<Rightarrow> path" where
  "parent p = butlast p"

definition file_name :: "path \<Rightarrow> string option" where
  "file_name p = (if p = [] then None else Some (last p))"

record fsys =
  fs_files :: "(path \<times> bytes) list"
  fs_dirs :: "path list"
  fs_calls :: nat

type_synonym fault_oracle = "nat \<Rightarrow> (io_error \<times> nat) option"

definition fs_lookup :: "fsys \<Rightarrow> path \<Rightarrow> bytes option" where
  "fs_lookup s p = map_of (fs_files s) p"

definition set_file :: "path \<Rightarrow> bytes \<Rightarrow> fsys \<Rightarrow> fsys" where
  "set_file p bs s = s\<lparr>fs_files := AList.update p bs (fs_files s)\<rparr>"

definition delete_file :: "path \<Rightarrow> fsys \<Rightarrow> fsys" where
  "delete_file p s = s\<lparr>fs_files := AList.delete p (fs_files s)\<rparr>"

abbreviation not_found :: io_error where
  "not_found \<equiv> IoError ''not found''"

text \<open>A call that does \<open>op\<close>, or fails after the part \<open>partial n\<close> of it.\<close>

definition fs_call ::
  "fault_oracle \<Rightarrow> (nat \<Rightarrow> fsys \<Rightarrow> fsys) \<Rightarrow> (fsys \<Rightarrow> 'a io_result \<times> fsys) \<Rightarrow> fsys \<Rightarrow> 'a io_result \<times> fsys" where
  "fs_call F partial_op op s =
     (let n = fs_calls s; s = s\<lparr>fs_calls := n + 1\<rparr>
      in case F n of
           None \<Rightarrow> op s
         | Some (e, k) \<Rightarrow> (Inl e, partial_op k s))"

definition fs_open :: "fault_oracle \<Rightarrow> path \<Rightarrow> fsys \<Rightarrow> bytes io_result \<times> fsys" where
  "fs_open F p = fs_call F (\<lambda>_. id) (\<lambda>s.
     case fs_lookup s p of None \<Rightarrow> (Inl not_found, s) | Some bs \<Rightarrow> (Inr bs, s))"

definition fs_create :: "fault_oracle \<Rightarrow> path \<Rightarrow> fsys \<Rightarrow> unit io_result \<times> fsys" where
  "fs_create F p = fs_call F (\<lambda>_. id) (\<lambda>s.
     if parent p \<in> set (fs_dirs s) then (Inr (), set_file p [] s) else (Inl not_found, s))"

definition fs_read :: "fault_oracle \<Rightarrow> path \<Rightarrow> fsys \<Rightarrow> bytes io_result \<times> fsys" where
  "fs_read F p = fs_call F (\<lambda>_. id) (\<lambda>s.
     case fs_lookup s p of None \<Rightarrow> (Inl not_found, s) | Some bs \<Rightarrow> (Inr bs, s))"

text \<open>A write that fails may leave a truncated file.\<close>

definition fs_write :: "fault_oracle \<Rightarrow> path \<Rightarrow> bytes \<Rightarrow> fsys \<Rightarrow> unit io_result \<times> fsys" where
  "fs_write F p bs = fs_call F
     (\<lambda>k s. if parent p \<in> set (fs_dirs s) then set_file p (take k bs) s else s)
     (\<lambda>s. if parent p \<in> set (fs_dirs s) then (Inr (), set_file p bs s) else (Inl not_found, s))"

definition fs_create_dir_all :: "fault_oracle \<Rightarrow> path \<Rightarrow> fsys \<Rightarrow> unit io_result \<times> fsys" where
  "fs_create_dir_all F p = fs_call F (\<lambda>_. id) (\<lambda>s.
     (Inr (), s\<lparr>fs_dirs := remdups (fs_dirs s @ map (\<lambda>n. take n p) [0..<Suc (length p)])\<rparr>))"

text \<open>\<open>rename\<close> replaces its target atomically.\<close>

definition fs_rename :: "fault_oracle \<Rightarrow> path \<Rightarrow> path \<Rightarrow> fsys \<Rightarrow> unit io_result \<times> fsys" where
  "fs_rename F old new = fs_call F (\<lambda>_. id) (\<lambda>s.
     case fs_lookup s old of
       None \<Rightarrow> (Inl not_found, s)
     | Some bs \<Rightarrow>
         if parent new \<in> set (fs_dirs s) then (Inr (), set_file new bs (delete_file old s))
         else (Inl not_found, s))"

definition inside :: "path \<Rightarrow> path \<Rightarrow> bool" where
  "inside dir p \<longleftrightarrow> take (length dir) p = dir"

text \<open>A removal that fails may have removed some of the files.\<close>

definition fs_remove_dir_all :: "fault_oracle \<Rightarrow> path \<Rightarrow> fsys \<Rightarrow> unit io_result \<times> fsys" where
  "fs_remove_dir_all F dir = fs_call F
     (\<lambda>k s. s\<lparr>fs_files := filter (\<lambda>(p, bs). p \<notin> set (take k (filter (inside dir) (map fst (fs_files s))))) (fs_files s)\<rparr>)
     (\<lambda>s. if dir \<in> set (fs_dirs s)
          then (Inr (), s\<lparr>fs_files := filter (\<lambda>(p, bs). \<not> inside dir p) (fs_files s),
                          fs_dirs := filter (\<lambda>p. \<not> inside dir p) (fs_dirs s)\<rparr>)
          else (Inl not_found, s))"

definition fs_metadata_len :: "fault_oracle \<Rightarrow> path \<Rightarrow> fsys \<Rightarrow> u64 io_result \<times> fsys" where
  "fs_metadata_len F p = fs_call F (\<lambda>_. id) (\<lambda>s.
     case fs_lookup s p of None \<Rightarrow> (Inl not_found, s) | Some bs \<Rightarrow> (Inr (word_of_nat (length bs)), s))"

definition fs_read_dir_paths :: "fault_oracle \<Rightarrow> path \<Rightarrow> fsys \<Rightarrow> path list io_result \<times> fsys" where
  "fs_read_dir_paths F dir = fs_call F (\<lambda>_. id) (\<lambda>s.
     if dir \<in> set (fs_dirs s)
     then (Inr (filter (\<lambda>p. p \<noteq> [] \<and> parent p = dir) (map fst (fs_files s) @ fs_dirs s)), s)
     else (Inl not_found, s))"

text \<open>
  Closing a writer gives the file its contents, unless the file has been removed meanwhile.
\<close>

definition fs_close :: "fault_oracle \<Rightarrow> path \<Rightarrow> bytes \<Rightarrow> fsys \<Rightarrow> unit io_result \<times> fsys" where
  "fs_close F p bs = fs_call F
     (\<lambda>k s. if fs_lookup s p = None then s else set_file p (take k bs) s)
     (\<lambda>s. (Inr (), if fs_lookup s p = None then s else set_file p bs s))"

text \<open>\<open>std::fs::remove_file\<close>, whose result the callers ignore.\<close>

definition fs_remove_file :: "fault_oracle \<Rightarrow> path \<Rightarrow> fsys \<Rightarrow> fsys" where
  "fs_remove_file F p s = snd (fs_call F (\<lambda>_. id) (\<lambda>s. (Inr () :: unit io_result, delete_file p s)) s)"

subsection \<open>Lemmas\<close>

text \<open>Files lie in existing directories.\<close>

definition fs_wf :: "fsys \<Rightarrow> bool" where
  "fs_wf s \<longleftrightarrow> (\<forall>p. fs_lookup s p \<noteq> None \<longrightarrow> parent p \<in> set (fs_dirs s))"

lemma fs_lookup_set_file [simp]:
  "fs_lookup (set_file p bs s) q = (if q = p then Some bs else fs_lookup s q)"
  by (simp add: fs_lookup_def set_file_def AList.update_conv)

lemma fs_lookup_delete_file [simp]:
  "fs_lookup (delete_file p s) q = (if q = p then None else fs_lookup s q)"
  by (simp add: fs_lookup_def delete_file_def AList.delete_conv)

lemma fs_files_paths:
  "fst ` set (fs_files (set_file p bs s)) = insert p (fst ` set (fs_files s))"
  "fst ` set (fs_files (delete_file p s)) = fst ` set (fs_files s) - {p}"
  by (simp add: set_file_def AList.dom_update) (force simp: delete_file_def AList.delete_eq)

lemma fs_dirs_files [simp]:
  "fs_dirs (set_file p bs s) = fs_dirs s" "fs_dirs (delete_file p s) = fs_dirs s"
  "fs_calls (set_file p bs s) = fs_calls s" "fs_calls (delete_file p s) = fs_calls s"
  by (simp_all add: set_file_def delete_file_def)

lemma fs_lookup_calls [simp]: "fs_lookup (s\<lparr>fs_calls := n\<rparr>) p = fs_lookup s p" "fs_lookup (s\<lparr>fs_dirs := ds\<rparr>) p = fs_lookup s p"
  by (simp_all add: fs_lookup_def)

lemma fs_lookup_dom: "fs_lookup s p \<noteq> None \<longleftrightarrow> p \<in> fst ` set (fs_files s)"
  by (simp add: fs_lookup_def map_of_eq_None_iff)

lemma parent_join [simp]: "parent (join_path dir name) = dir" "join_path dir name \<noteq> []"
  "file_name (join_path dir name) = Some name" "join_path dir x = join_path dir y \<longleftrightarrow> x = y"
  by (simp_all add: parent_def join_path_def file_name_def)

text \<open>Filtering by path commutes with updates.\<close>

lemma filter_AList_update:
  "filter (\<lambda>(p, bs). P p) (AList.update k v al) =
     (if P k then AList.update k v (filter (\<lambda>(p, bs). P p) al) else filter (\<lambda>(p, bs). P p) al)"
  by (induction al) auto

lemma filter_AList_delete:
  "filter (\<lambda>(p, bs). P p) (AList.delete k al) = AList.delete k (filter (\<lambda>(p, bs). P p) al)"
  by (induction al) (auto simp: AList.delete_eq)

lemma AList_delete_other:
  "\<not> P k \<Longrightarrow> AList.delete k (filter (\<lambda>(p, bs). P p) al) = filter (\<lambda>(p, bs). P p) al"
  by (induction al) (auto simp: AList.delete_eq)

text \<open>Calls that do not fail.\<close>

definition fs_quiet :: "fault_oracle \<Rightarrow> bool" where
  "fs_quiet F \<longleftrightarrow> (\<forall>n. F n = None)"

lemma fs_call_quiet: "fs_quiet F \<Longrightarrow> fs_call F pa op s = op (s\<lparr>fs_calls := fs_calls s + 1\<rparr>)"
  by (simp add: fs_call_def fs_quiet_def)

end
