(* ===== verification/Fs.thy ===== *)
theory Fs
  imports Client File_System
begin

section \<open>The file-system storage (\<open>src/fs.rs\<close>)\<close>

text \<open>
  Each variant is two files under \<open>root/key-hash\<close>: a body and a \<open>.meta\<close> file with policy and
  trailers, which is written last and marks the commit. The state is the file system, the
  capacity index (a map of \<open>moka\<close> with an eviction listener) and the counter for temporary
  names. Parameters are SHA-256, the \<open>rkyv\<close> encoding, the index, and the handles the
  runtimes give for reading and writing files. Every call of the file system may fail. The
  suspended \<open>finalize\<close> does one awaited call per poll, so that what other tasks see between
  its steps is part of the model.
\<close>

definition META_SUFFIX :: string where
  "META_SUFFIX = ''.meta''"

definition BODY_SUFFIX :: string where
  "BODY_SUFFIX = ''.body''"

definition fs_DEFAULT_MAX_CAPACITY_BYTES :: u64 where
  "fs_DEFAULT_MAX_CAPACITY_BYTES = 1024 * 1024 * 1024"

record variant_id =
  vi_key_hash :: string
  vi_variant_hash :: string

record 'h stored_meta =
  sm_policy :: "'h policy_repr"
  sm_trailers :: "'h option"

record ('h, 'r) fs_body_source =
  fbs_reader :: 'r
  fbs_trailers :: "'h option"

subsection \<open>The code the storage is built on\<close>

text \<open>
  The index as a parameter: each operation also gives the removals its listener is told of.
\<close>

datatype removal_cause = Expired | Explicit | Replaced | SizeExceeded

fun was_evicted :: "removal_cause \<Rightarrow> bool" where
  "was_evicted Expired = True"
| "was_evicted SizeExceeded = True"
| "was_evicted Explicit = False"
| "was_evicted Replaced = False"

type_synonym removals = "(variant_id \<times> removal_cause) list"

record ('i, 'd) index_ops =
  ix_builder :: "(variant_id \<Rightarrow> u64 \<Rightarrow> u32) \<Rightarrow> 'd"
  ix_max_capacity :: "'d \<Rightarrow> u64 \<Rightarrow> 'd"
  ix_time_to_idle :: "'d \<Rightarrow> duration \<Rightarrow> 'd"
  ix_time_to_live :: "'d \<Rightarrow> duration \<Rightarrow> 'd"
  ix_build :: "'d \<Rightarrow> 'i"
  ix_get :: "'i \<Rightarrow> variant_id \<Rightarrow> 'i \<times> removals"
  ix_insert :: "'i \<Rightarrow> variant_id \<Rightarrow> u64 \<Rightarrow> 'i \<times> removals"
  ix_invalidate :: "'i \<Rightarrow> variant_id \<Rightarrow> 'i \<times> removals"
  ix_run_pending_tasks :: "'i \<Rightarrow> 'i \<times> removals"

record ('h, 'i, 'd, 'wr, 'r, 'b) fs_env =
  fe_ext :: "'h ext"
  fe_root :: path
  fe_fault :: fault_oracle
  fe_sha256 :: "bytes \<Rightarrow> bytes"
  fe_method_str :: "http_method \<Rightarrow> string"
  fe_to_bytes :: "'h stored_meta \<Rightarrow> bytes io_result"
  fe_from_bytes :: "bytes \<Rightarrow> 'h stored_meta io_result"
  fe_index :: "('i, 'd) index_ops"
  fe_writer :: 'wr
  fe_poll_write :: "'wr \<Rightarrow> bytes \<Rightarrow> nat io_result poll \<times> 'wr"
  fe_reader :: "bytes \<Rightarrow> 'r"
  fe_poll_read :: "'r \<Rightarrow> nat \<Rightarrow> bytes io_result poll \<times> 'r"
  fe_new_body :: "('h, 'r) fs_body_source \<Rightarrow> u64 option \<Rightarrow> 'b"

record 'i fs_state =
  fss_fs :: fsys
  fss_index :: 'i
  fss_temp :: u64

subsection \<open>Names of files\<close>

text \<open>\<open>str::as_bytes\<close>.\<close>

definition utf8 :: "string \<Rightarrow> bytes" where
  "utf8 s = concat (map (\<lambda>c. let n = (of_char c :: nat)
     in if n < 128 then [word_of_nat n] else [word_of_nat (192 + n div 64), word_of_nat (128 + n mod 64)]) s)"

definition hex_digit :: "nat \<Rightarrow> char" where
  "hex_digit n = ''0123456789abcdef'' ! n"

definition finalize_hex :: "bytes \<Rightarrow> string" where
  "finalize_hex digest = concat (map (\<lambda>b. [hex_digit (unat b div 16), hex_digit (unat b mod 16)]) digest)"

definition hash_hex :: "('h, 'i, 'd, 'wr, 'r, 'b) fs_env \<Rightarrow> bytes \<Rightarrow> string" where
  "hash_hex E bs = finalize_hex (fe_sha256 E bs)"

definition cache_key_to_string :: "(http_method \<Rightarrow> string) \<Rightarrow> cache_key \<Rightarrow> string" where
  "cache_key_to_string m k = m (key_method k) @ '' '' @ key_url k"

definition key_hash :: "('h, 'i, 'd, 'wr, 'r, 'b) fs_env \<Rightarrow> cache_key \<Rightarrow> string" where
  "key_hash E k = hash_hex E (utf8 (cache_key_to_string (fe_method_str E) k))"

text \<open>The bytes the hasher is fed for a \<open>Vary\<close> signature.\<close>

definition variant_bytes :: "(string \<times> string option) list \<Rightarrow> bytes" where
  "variant_bytes snapshot =
     concat (map (\<lambda>(name, val).
       utf8 name @ [0] @ (case val of Some v \<Rightarrow> 1 # utf8 v | None \<Rightarrow> [0]) @ [0]) snapshot)"

definition variant_hash :: "('h, 'i, 'd, 'wr, 'r, 'b) fs_env \<Rightarrow> 'h cache_policy \<Rightarrow> string" where
  "variant_hash E p = finalize_hex (fe_sha256 E (variant_bytes (vary_snapshot p)))"

definition key_dir :: "('h, 'i, 'd, 'wr, 'r, 'b) fs_env \<Rightarrow> cache_key \<Rightarrow> path" where
  "key_dir E k = join_path (fe_root E) (key_hash E k)"

text \<open>\<open>temp_sibling\<close>, given the value of the counter.\<close>

definition temp_sibling :: "path \<Rightarrow> u64 \<Rightarrow> path" where
  "temp_sibling p n = parent p @ [last p @ ''.tmp.'' @ u64_to_string n]"

definition fetch_temp :: "'i fs_state \<Rightarrow> u64 \<times> 'i fs_state" where
  "fetch_temp s = (fss_temp s, s\<lparr>fss_temp := fss_temp s + 1\<rparr>)"

subsection \<open>The capacity index\<close>

text \<open>The eviction listener: it deletes the files of the variants that were evicted.\<close>

definition evict_variant :: "('h, 'i, 'd, 'wr, 'r, 'b) fs_env \<Rightarrow> fsys \<Rightarrow> variant_id \<times> removal_cause \<Rightarrow> fsys" where
  "evict_variant E f r =
     (let (vid, cause) = r
      in if was_evicted cause
         then let dir = join_path (fe_root E) (vi_key_hash vid);
                  f = fs_remove_file (fe_fault E) (join_path dir (vi_variant_hash vid @ META_SUFFIX)) f
              in fs_remove_file (fe_fault E) (join_path dir (vi_variant_hash vid @ BODY_SUFFIX)) f
         else f)"

text \<open>An operation on the index, with the calls of its listener.\<close>

definition on_index ::
  "('h, 'i, 'd, 'wr, 'r, 'b) fs_env \<Rightarrow> ('i \<Rightarrow> 'i \<times> removals) \<Rightarrow> 'i fs_state \<Rightarrow> 'i fs_state" where
  "on_index E op s =
     (let (i, removed) = op (fss_index s)
      in s\<lparr>fss_index := i, fss_fs := foldl (evict_variant E) (fss_fs s) removed\<rparr>)"

definition weigh_variant :: "variant_id \<Rightarrow> u64 \<Rightarrow> u32" where
  "weigh_variant k body_len = (if unat body_len < 2 ^ 32 then word_of_nat (unat body_len) else - 1)"

definition build_index ::
  "('h, 'i, 'd, 'wr, 'r, 'b) fs_env \<Rightarrow> u64 option \<Rightarrow> duration option \<Rightarrow> duration option \<Rightarrow> 'i" where
  "build_index E max_cap tti ttl =
     (let I = fe_index E;
          builder = ix_builder I weigh_variant;
          builder = (case max_cap of Some cap \<Rightarrow> ix_max_capacity I builder cap | None \<Rightarrow> builder);
          builder = (case tti of Some d \<Rightarrow> ix_time_to_idle I builder d | None \<Rightarrow> builder);
          builder = (case ttl of Some d \<Rightarrow> ix_time_to_live I builder d | None \<Rightarrow> builder)
      in ix_build I builder)"

text \<open>The part of a path's name before \<open>.meta\<close>.\<close>

definition meta_stem :: "path \<Rightarrow> string option" where
  "meta_stem p = Option.bind (file_name p) (\<lambda>name. strip_suffix META_SUFFIX name)"

definition scan_file ::
  "('h, 'i, 'd, 'wr, 'r, 'b) fs_env \<Rightarrow> path \<Rightarrow> string \<Rightarrow> 'i fs_state \<Rightarrow> path \<Rightarrow> 'i fs_state" where
  "scan_file E dir kh s p =
     (case meta_stem p of
        None \<Rightarrow> s
      | Some vh \<Rightarrow>
          (case fs_metadata_len (fe_fault E) (join_path dir (vh @ BODY_SUFFIX)) (fss_fs s) of
             (Inl e, f) \<Rightarrow> s\<lparr>fss_fs := f\<rparr>
           | (Inr len, f) \<Rightarrow>
               on_index E (\<lambda>i. ix_insert (fe_index E) i \<lparr>vi_key_hash = kh, vi_variant_hash = vh\<rparr> len)
                 (s\<lparr>fss_fs := f\<rparr>)))"

definition scan_key_dir ::
  "('h, 'i, 'd, 'wr, 'r, 'b) fs_env \<Rightarrow> 'i fs_state \<Rightarrow> path \<Rightarrow> 'i fs_state" where
  "scan_key_dir E s dir =
     (case file_name dir of
        None \<Rightarrow> s
      | Some kh \<Rightarrow>
          (case fs_read_dir_paths (fe_fault E) dir (fss_fs s) of
             (Inl e, f) \<Rightarrow> s\<lparr>fss_fs := f\<rparr>
           | (Inr files, f) \<Rightarrow> foldl (scan_file E dir kh) (s\<lparr>fss_fs := f\<rparr>) files))"

definition scan_root :: "('h, 'i, 'd, 'wr, 'r, 'b) fs_env \<Rightarrow> 'i fs_state \<Rightarrow> 'i fs_state" where
  "scan_root E s =
     (case fs_read_dir_paths (fe_fault E) (fe_root E) (fss_fs s) of
        (Inl e, f) \<Rightarrow> s\<lparr>fss_fs := f\<rparr>
      | (Inr key_dirs, f) \<Rightarrow>
          on_index E (ix_run_pending_tasks (fe_index E))
            (foldl (scan_key_dir E) (s\<lparr>fss_fs := f\<rparr>) key_dirs))"

subsection \<open>Construction\<close>

record fs_config =
  fsc_max_capacity_bytes :: "u64 option"
  fsc_time_to_idle :: "duration option"
  fsc_time_to_live :: "duration option"

definition fs_rebuild ::
  "('h, 'i, 'd, 'wr, 'r, 'b) fs_env \<Rightarrow> fs_config \<Rightarrow> 'i fs_state \<Rightarrow> 'i fs_state" where
  "fs_rebuild E c s =
     scan_root E (s\<lparr>fss_index :=
       build_index E (fsc_max_capacity_bytes c) (fsc_time_to_idle c) (fsc_time_to_live c)\<rparr>)"

text \<open>\<open>FileSystemStorage::new\<close> on the file system it finds.\<close>

definition fs_new ::
  "('h, 'i, 'd, 'wr, 'r, 'b) fs_env \<Rightarrow> fsys \<Rightarrow> u64 \<Rightarrow> fs_config \<times> 'i fs_state" where
  "fs_new E f temp =
     (let cap = Some fs_DEFAULT_MAX_CAPACITY_BYTES;
          s = \<lparr>fss_fs = f, fss_index = build_index E cap None None, fss_temp = temp\<rparr>
      in (\<lparr>fsc_max_capacity_bytes = cap, fsc_time_to_idle = None, fsc_time_to_live = None\<rparr>, scan_root E s))"

definition fs_with_max_capacity_bytes ::
  "('h, 'i, 'd, 'wr, 'r, 'b) fs_env \<Rightarrow> fs_config \<Rightarrow> u64 \<Rightarrow> 'i fs_state \<Rightarrow> fs_config \<times> 'i fs_state" where
  "fs_with_max_capacity_bytes E c n s =
     (let c = c\<lparr>fsc_max_capacity_bytes := Some n\<rparr> in (c, fs_rebuild E c s))"

definition fs_unbounded ::
  "('h, 'i, 'd, 'wr, 'r, 'b) fs_env \<Rightarrow> fs_config \<Rightarrow> 'i fs_state \<Rightarrow> fs_config \<times> 'i fs_state" where
  "fs_unbounded E c s = (let c = c\<lparr>fsc_max_capacity_bytes := None\<rparr> in (c, fs_rebuild E c s))"

definition fs_with_time_to_idle ::
  "('h, 'i, 'd, 'wr, 'r, 'b) fs_env \<Rightarrow> fs_config \<Rightarrow> duration \<Rightarrow> 'i fs_state \<Rightarrow> fs_config \<times> 'i fs_state" where
  "fs_with_time_to_idle E c d s =
     (let c = c\<lparr>fsc_time_to_idle := Some d\<rparr> in (c, fs_rebuild E c s))"

definition fs_with_time_to_live ::
  "('h, 'i, 'd, 'wr, 'r, 'b) fs_env \<Rightarrow> fs_config \<Rightarrow> duration \<Rightarrow> 'i fs_state \<Rightarrow> fs_config \<times> 'i fs_state" where
  "fs_with_time_to_live E c d s =
     (let c = c\<lparr>fsc_time_to_live := Some d\<rparr> in (c, fs_rebuild E c s))"

definition fs_run_pending_tasks ::
  "('h, 'i, 'd, 'wr, 'r, 'b) fs_env \<Rightarrow> 'i fs_state \<Rightarrow> 'i fs_state" where
  "fs_run_pending_tasks E s = on_index E (ix_run_pending_tasks (fe_index E)) s"

subsection \<open>The storage\<close>

record 'h fs_entry =
  fse_meta_path :: path
  fse_body_path :: path
  fse_policy :: "'h cache_policy"
  fse_trailers :: "'h option"

text \<open>A writer: the handle of the runtime and the bytes it has accepted.\<close>

record 'wr fs_writer =
  fw_handle :: 'wr
  fw_data :: bytes

record ('h, 'wr) fs_put_handle =
  fph_writer :: "'wr fs_writer"
  fph_body_tmp :: path
  fph_body_final :: path
  fph_meta_tmp :: path
  fph_meta_final :: path
  fph_policy :: "'h cache_policy"
  fph_variant_id :: variant_id
  fph_written :: u64
  fph_committed :: bool

text \<open>A run of file system calls on the state.\<close>

definition on_fs :: "(fsys \<Rightarrow> 'a io_result \<times> fsys) \<Rightarrow> 'i fs_state \<Rightarrow> 'a io_result \<times> 'i fs_state" where
  "on_fs op s = (case op (fss_fs s) of (r, f) \<Rightarrow> (r, s\<lparr>fss_fs := f\<rparr>))"

text \<open>One path of the directory of a key: its entry, if it is a readable \<open>.meta\<close> file.\<close>

definition fs_get_path ::
  "('h, 'i, 'd, 'wr, 'r, 'b) fs_env \<Rightarrow> cache_key \<Rightarrow> 'h fs_entry list \<times> 'i fs_state \<Rightarrow> path \<Rightarrow>
   'h fs_entry list \<times> 'i fs_state" where
  "fs_get_path E k acc p =
     (let (entries, s) = acc
      in case meta_stem p of
           None \<Rightarrow> (entries, s)
         | Some vh \<Rightarrow>
             (case on_fs (fs_read (fe_fault E) p) s of
                (Inl e, s) \<Rightarrow> (entries, s)
              | (Inr bs, s) \<Rightarrow>
                  (case fe_from_bytes E bs of
                     Inl e \<Rightarrow> (entries, s)
                   | Inr meta \<Rightarrow>
                       (let s = on_index E (\<lambda>i. ix_get (fe_index E) i
                                  \<lparr>vi_key_hash = key_hash E k, vi_variant_hash = vh\<rparr>) s
                        in (entries @ [\<lparr>fse_meta_path = p,
                                        fse_body_path = join_path (key_dir E k) (vh @ BODY_SUFFIX),
                                        fse_policy = policy_from_repr (fe_ext E) (sm_policy meta),
                                        fse_trailers = sm_trailers meta\<rparr>], s)))))"

definition fs_get ::
  "('h, 'i, 'd, 'wr, 'r, 'b) fs_env \<Rightarrow> 'i fs_state \<Rightarrow> cache_key \<Rightarrow> 'h fs_entry list \<times> 'i fs_state" where
  "fs_get E s k =
     (case on_fs (fs_read_dir_paths (fe_fault E) (key_dir E k)) s of
        (Inl e, s) \<Rightarrow> ([], s)
      | (Inr paths, s) \<Rightarrow> foldl (fs_get_path E k) ([], s) paths)"

definition fs_put ::
  "('h, 'i, 'd, 'wr, 'r, 'b) fs_env \<Rightarrow> 'i fs_state \<Rightarrow> cache_key \<Rightarrow> 'h cache_policy \<Rightarrow>
   ('h, 'wr) fs_put_handle io_result \<times> 'i fs_state" where
  "fs_put E s k pol =
     (let dir = key_dir E k
      in case on_fs (fs_create_dir_all (fe_fault E) dir) s of
           (Inl e, s) \<Rightarrow> (Inl e, s)
         | (Inr _, s) \<Rightarrow>
             (let vh = variant_hash E pol;
                  (n, s) = fetch_temp s;
                  tmp = ''.tmp.'' @ u64_to_string n;
                  body_tmp = join_path dir (vh @ BODY_SUFFIX @ tmp)
              in case on_fs (fs_create (fe_fault E) body_tmp) s of
                   (Inl e, s) \<Rightarrow> (Inl e, s)
                 | (Inr _, s) \<Rightarrow>
                     (Inr \<lparr>fph_writer = \<lparr>fw_handle = fe_writer E, fw_data = []\<rparr>, fph_body_tmp = body_tmp,
                           fph_body_final = join_path dir (vh @ BODY_SUFFIX),
                           fph_meta_tmp = join_path dir (vh @ META_SUFFIX @ tmp),
                           fph_meta_final = join_path dir (vh @ META_SUFFIX),
                           fph_policy = pol,
                           fph_variant_id = \<lparr>vi_key_hash = key_hash E k, vi_variant_hash = vh\<rparr>,
                           fph_written = 0, fph_committed = False\<rparr>, s)))"

definition fs_invalidate ::
  "('h, 'i, 'd, 'wr, 'r, 'b) fs_env \<Rightarrow> 'i fs_state \<Rightarrow> cache_key \<Rightarrow> 'i fs_state" where
  "fs_invalidate E s k =
     (let dir = key_dir E k;
          s = (case on_fs (fs_read_dir_paths (fe_fault E) dir) s of
                 (Inl e, s) \<Rightarrow> s
               | (Inr paths, s) \<Rightarrow>
                   foldl (\<lambda>s p. case meta_stem p of
                       None \<Rightarrow> s
                     | Some vh \<Rightarrow> on_index E (\<lambda>i. ix_invalidate (fe_index E) i
                         \<lparr>vi_key_hash = key_hash E k, vi_variant_hash = vh\<rparr>) s) s paths)
      in snd (on_fs (fs_remove_dir_all (fe_fault E) dir) s))"

subsection \<open>The put handle\<close>

definition writer_poll_write ::
  "('h, 'i, 'd, 'wr, 'r, 'b) fs_env \<Rightarrow> 'wr fs_writer \<Rightarrow> bytes \<Rightarrow> nat io_result poll \<times> 'wr fs_writer" where
  "writer_poll_write E wr buf =
     (case fe_poll_write E (fw_handle wr) buf of
        (r, h) \<Rightarrow> (r, wr\<lparr>fw_handle := h,
          fw_data := (case r of Ready (Inr n) \<Rightarrow> fw_data wr @ take n buf | _ \<Rightarrow> fw_data wr)\<rparr>))"

text \<open>The counter of written bytes is added to without a check, as in a release build.\<close>

definition fs_poll_write ::
  "('h, 'i, 'd, 'wr, 'r, 'b) fs_env \<Rightarrow> ('h, 'wr) fs_put_handle \<Rightarrow> bytes \<Rightarrow>
   nat io_result poll \<times> ('h, 'wr) fs_put_handle" where
  "fs_poll_write E w buf =
     (case writer_poll_write E (fph_writer w) buf of
        (r, wr) \<Rightarrow>
          (let w = w\<lparr>fph_writer := wr\<rparr>
           in (r, case r of Ready (Inr n) \<Rightarrow> w\<lparr>fph_written := fph_written w + word_of_nat n\<rparr> | _ \<Rightarrow> w)))"

definition fs_drop :: "('h, 'i, 'd, 'wr, 'r, 'b) fs_env \<Rightarrow> ('h, 'wr) fs_put_handle \<Rightarrow> 'i fs_state \<Rightarrow> 'i fs_state" where
  "fs_drop E w s =
     (if \<not> fph_committed w then s\<lparr>fss_fs := fs_remove_file (fe_fault E) (fph_body_tmp w) (fss_fs s)\<rparr> else s)"

datatype fs_stage = Closing | RenamingBody | WritingMeta | RenamingMeta | Finalized

record ('h, 'wr) fs_future =
  ff_stage :: fs_stage
  ff_handle :: "('h, 'wr) fs_put_handle"
  ff_trailers :: "'h option"

definition fs_finalize :: "('h, 'wr) fs_put_handle \<Rightarrow> 'h option \<Rightarrow> ('h, 'wr) fs_future" where
  "fs_finalize w trailers = \<lparr>ff_stage = Closing, ff_handle = w, ff_trailers = trailers\<rparr>"

text \<open>An awaited call of \<open>finalize\<close>: an error ends it and drops the handle.\<close>

definition fs_await ::
  "('h, 'i, 'd, 'wr, 'r, 'b) fs_env \<Rightarrow> fs_stage \<Rightarrow> ('h, 'wr) fs_future \<Rightarrow> unit io_result \<times> 'i fs_state \<Rightarrow>
   unit io_result poll \<times> ('h, 'wr) fs_future \<times> 'i fs_state" where
  "fs_await E nxt fut rs =
     (case rs of
        (Inl e, s) \<Rightarrow> (Ready (Inl e), fut\<lparr>ff_stage := Finalized\<rparr>, fs_drop E (ff_handle fut) s)
      | (Inr _, s) \<Rightarrow> (Pending, fut\<lparr>ff_stage := nxt\<rparr>, s))"

definition fs_poll_finalize ::
  "('h, 'i, 'd, 'wr, 'r, 'b) fs_env \<Rightarrow> ('h, 'wr) fs_future \<Rightarrow> 'i fs_state \<Rightarrow>
   unit io_result poll \<times> ('h, 'wr) fs_future \<times> 'i fs_state" where
  "fs_poll_finalize E fut s =
     (let w = ff_handle fut
      in case ff_stage fut of
           Closing \<Rightarrow>
             fs_await E RenamingBody fut
               (on_fs (fs_close (fe_fault E) (fph_body_tmp w) (fw_data (fph_writer w))) s)
         | RenamingBody \<Rightarrow>
             fs_await E WritingMeta fut (on_fs (fs_rename (fe_fault E) (fph_body_tmp w) (fph_body_final w)) s)
         | WritingMeta \<Rightarrow>
             (let meta = \<lparr>sm_policy = policy_to_repr (fph_policy w), sm_trailers = ff_trailers fut\<rparr>
              in case fe_to_bytes E meta of
                   Inl e \<Rightarrow> fs_await E RenamingMeta fut (Inl e, s)
                 | Inr bs \<Rightarrow>
                     fs_await E RenamingMeta fut (on_fs (fs_write (fe_fault E) (fph_meta_tmp w) bs) s))
         | RenamingMeta \<Rightarrow>
             (case on_fs (fs_rename (fe_fault E) (fph_meta_tmp w) (fph_meta_final w)) s of
                (Inl e, s) \<Rightarrow> fs_await E Finalized fut (Inl e, s)
              | (Inr _, s) \<Rightarrow>
                  (Ready (Inr ()), fut\<lparr>ff_stage := Finalized, ff_handle := w\<lparr>fph_committed := True\<rparr>\<rparr>,
                   on_index E (\<lambda>i. ix_insert (fe_index E) i (fph_variant_id w) (fph_written w)) s))
         | Finalized \<Rightarrow> (Ready (Inr ()), fut, s))"

subsection \<open>Entries\<close>

definition fs_refresh_policy ::
  "('h, 'i, 'd, 'wr, 'r, 'b) fs_env \<Rightarrow> 'h fs_entry \<Rightarrow> 'h cache_policy \<Rightarrow> 'i fs_state \<Rightarrow>
   unit io_result \<times> 'h fs_entry \<times> 'i fs_state" where
  "fs_refresh_policy E e new_policy s =
     (let meta = \<lparr>sm_policy = policy_to_repr new_policy, sm_trailers = fse_trailers e\<rparr>
      in case fe_to_bytes E meta of
           Inl err \<Rightarrow> (Inl err, e, s)
         | Inr bs \<Rightarrow>
             (let (n, s) = fetch_temp s;
                  tmp = temp_sibling (fse_meta_path e) n
              in case on_fs (fs_write (fe_fault E) tmp bs) s of
                   (Inl err, s) \<Rightarrow> (Inl err, e, s)
                 | (Inr _, s) \<Rightarrow>
                     (case on_fs (fs_rename (fe_fault E) tmp (fse_meta_path e)) s of
                        (Inl err, s) \<Rightarrow> (Inl err, e, s)
                      | (Inr _, s) \<Rightarrow> (Inr (), e\<lparr>fse_policy := new_policy\<rparr>, s))))"

definition fs_entry_open ::
  "('h, 'i, 'd, 'wr, 'r, 'b) fs_env \<Rightarrow> 'h fs_entry \<Rightarrow> 'i fs_state \<Rightarrow> 'b io_result \<times> 'i fs_state" where
  "fs_entry_open E e s =
     (case on_fs (fs_metadata_len (fe_fault E) (fse_body_path e)) s of
        (Inl err, s) \<Rightarrow> (Inl err, s)
      | (Inr len, s) \<Rightarrow>
          (case on_fs (fs_open (fe_fault E) (fse_body_path e)) s of
             (Inl err, s) \<Rightarrow> (Inl err, s)
           | (Inr bs, s) \<Rightarrow>
               (Inr (fe_new_body E \<lparr>fbs_reader = fe_reader E bs, fbs_trailers = fse_trailers e\<rparr> (Some len)), s)))"

definition fs_source_poll_read ::
  "('h, 'i, 'd, 'wr, 'r, 'b) fs_env \<Rightarrow> ('h, 'r) fs_body_source \<Rightarrow> nat \<Rightarrow>
   bytes io_result poll \<times> ('h, 'r) fs_body_source" where
  "fs_source_poll_read E src n =
     (case fe_poll_read E (fbs_reader src) n of (r, rd) \<Rightarrow> (r, src\<lparr>fbs_reader := rd\<rparr>))"

definition fs_source_trailers :: "('h, 'r) fs_body_source \<Rightarrow> 'h option \<times> ('h, 'r) fs_body_source" where
  "fs_source_trailers src = (fbs_trailers src, src\<lparr>fbs_trailers := None\<rparr>)"

subsection \<open>The file-system storage as a storage\<close>

definition fs_storage_ops ::
  "('h, 'i, 'd, 'wr, 'r, 'b) fs_env \<Rightarrow>
   ('h, 'i fs_state, 'h fs_entry, ('h, 'wr) fs_put_handle, 'b) storage" where
  "fs_storage_ops E =
     \<lparr>storage_get = fs_get E, storage_put = fs_put E, storage_invalidate = fs_invalidate E,
      entry_policy = fse_policy, entry_refresh_policy = fs_refresh_policy E, entry_open = fs_entry_open E\<rparr>"

definition fs_put_ops ::
  "('h, 'i, 'd, 'wr, 'r, 'b) fs_env \<Rightarrow>
   ('h, 'i fs_state, ('h, 'wr) fs_put_handle, ('h, 'wr) fs_future) put_handle" where
  "fs_put_ops E =
     \<lparr>poll_write = fs_poll_write E, finalize = fs_finalize, poll_finalize = fs_poll_finalize E\<rparr>"

subsection \<open>The put handle keeps its contract\<close>

text \<open>The runtimes' files accept at most what they are given (\<open>AsyncWrite\<close>).\<close>

definition fs_ok :: "('h, 'i, 'd, 'wr, 'r, 'b) fs_env \<Rightarrow> bool" where
  "fs_ok E \<longleftrightarrow> (\<forall>h buf n h'. fe_poll_write E h buf = (Ready (Inr n), h') \<longrightarrow> n \<le> length buf)"

definition fs_future_variant :: "('h, 'wr) fs_future \<Rightarrow> 'h variant" where
  "fs_future_variant f =
     \<lparr>v_policy = fph_policy (ff_handle f), v_body = fw_data (fph_writer (ff_handle f)), v_trailers = ff_trailers f\<rparr>"

lemma fs_poll_finalize_pending:
  "fs_poll_finalize E f s = (Pending, f', s') \<Longrightarrow> ff_handle f' = ff_handle f \<and> ff_trailers f' = ff_trailers f"
  by (auto simp: fs_poll_finalize_def fs_await_def Let_def split: fs_stage.splits prod.splits sum.splits)

interpretation fs_writer: put_writer fs_ok fs_put_ops "\<lambda>w. fw_data (fph_writer w)" fph_variant_id fph_policy
  "\<lambda>f. fph_variant_id (ff_handle f)" fs_future_variant
proof (unfold_locales, goal_cases)
  case (1 p w buf r w')
  then show ?case
    by (auto simp: fs_put_ops_def fs_poll_write_def Let_def split: prod.splits poll.splits sum.splits)
next
  case (2 p w buf w')
  then show ?case
    by (auto simp: fs_put_ops_def fs_poll_write_def writer_poll_write_def Let_def split: prod.splits)
next
  case (3 p w buf n w')
  then show ?case
    by (auto simp: fs_put_ops_def fs_poll_write_def writer_poll_write_def Let_def fs_ok_def split: prod.splits)
next
  case (6 p f s f' s')
  then have "fs_poll_finalize p f s = (Pending, f', s')" by (simp add: fs_put_ops_def)
  from fs_poll_finalize_pending [OF this] show ?case by (simp add: fs_future_variant_def)
qed (simp_all add: fs_put_ops_def fs_finalize_def fs_future_variant_def)

subsection \<open>Lemmas: the names of files\<close>

definition utf8_char :: "char \<Rightarrow> bytes" where
  "utf8_char c = (let n = (of_char c :: nat)
     in if n < 128 then [word_of_nat n] else [word_of_nat (192 + n div 64), word_of_nat (128 + n mod 64)])"

lemma utf8_Cons [simp]: "utf8 [] = []" "utf8 (c # s) = utf8_char c @ utf8 s"
  by (simp_all add: utf8_def utf8_char_def)

lemma of_char_less: "(of_char c :: nat) < 256"
  using nat_of_char_less_256 [of c] by simp

lemma unat_byte: "n < 256 \<Longrightarrow> unat (word_of_nat n :: 8 word) = n"
  by (simp add: unat_of_nat)

definition utf8_nat :: "nat \<Rightarrow> nat list" where
  "utf8_nat n = (if n < 128 then [n] else [192 + n div 64, 128 + n mod 64])"

lemma map_unat_utf8_char: "map unat (utf8_char c) = utf8_nat (of_char c)"
proof -
  let ?n = "of_char c :: nat"
  have "?n < 256" by (rule of_char_less)
  then have "192 + ?n div 64 < 256" "128 + ?n mod 64 < 256" by linarith+
  then show ?thesis
    using of_char_less [of c] unat_byte
    by (simp add: utf8_char_def utf8_nat_def Let_def del: of_nat_add)
qed

lemma utf8_nat_prefix:
  assumes "utf8_nat m @ x = utf8_nat n @ y"
  shows "m = n \<and> x = y"
proof -
  have "m = n" if "m div 64 = n div 64" "m mod 64 = n mod 64"
    using that by (metis div_mult_mod_eq)
  then show ?thesis using assms by (auto simp: utf8_nat_def split: if_splits)
qed

lemma utf8_char_prefix:
  assumes "utf8_char c @ x = utf8_char d @ y"
  shows "c = d \<and> x = y"
proof -
  have "utf8_nat (of_char c) @ map unat x = utf8_nat (of_char d) @ map unat y"
    using arg_cong [OF assms, of "map unat"] by (simp add: map_unat_utf8_char)
  from utf8_nat_prefix [OF this] show ?thesis using assms by simp
qed

lemma utf8_inject [simp]: "utf8 s = utf8 t \<longleftrightarrow> s = t"
proof -
  have nonempty: "utf8_char c \<noteq> []" for c by (simp add: utf8_char_def Let_def)
  have "utf8 s = utf8 t \<Longrightarrow> s = t"
  proof (induction s arbitrary: t)
    case Nil
    then show ?case using nonempty by (cases t) auto
  next
    case (Cons c s)
    then show ?case using nonempty utf8_char_prefix by (cases t) auto
  qed
  then show ?thesis by blast
qed

text \<open>No \<open>NUL\<close> occurs in names and values of header fields.\<close>

definition nul_free :: "string \<Rightarrow> bool" where
  "nul_free s \<longleftrightarrow> CHR 0x00 \<notin> set s"

definition signature_nul_free :: "(string \<times> string option) list \<Rightarrow> bool" where
  "signature_nul_free sig \<longleftrightarrow> (\<forall>(n, v) \<in> set sig. nul_free n \<and> (\<forall>x. v = Some x \<longrightarrow> nul_free x))"

lemma utf8_char_zero: "0 \<in> set (utf8_char c) \<longleftrightarrow> c = CHR 0x00"
proof -
  have "0 \<in> set (utf8_char c) \<longleftrightarrow> 0 \<in> set (map unat (utf8_char c))"
    by (auto simp: unat_eq_0)
  also have "\<dots> \<longleftrightarrow> (of_char c :: nat) = 0"
    unfolding map_unat_utf8_char by (auto simp: utf8_nat_def)
  also have "\<dots> \<longleftrightarrow> (of_char c :: nat) = of_char CHR 0x00" by simp
  also have "\<dots> \<longleftrightarrow> c = CHR 0x00" by (rule of_char_eq_iff)
  finally show ?thesis .
qed

lemma utf8_zero: "nul_free s \<longleftrightarrow> 0 \<notin> set (utf8 s)"
  by (induction s) (auto simp: nul_free_def utf8_char_zero)

lemma append_sep_inject:
  assumes "z \<notin> set a" and "z \<notin> set b" and "a @ z # x = b @ z # y"
  shows "a = b \<and> x = y"
  using assms
proof (induction a arbitrary: b)
  case Nil
  then show ?case by (cases b) auto
next
  case (Cons c a)
  then show ?case by (cases b) auto
qed

lemma variant_bytes_inject:
  assumes "signature_nul_free a" and "signature_nul_free b" and "variant_bytes a = variant_bytes b"
  shows "a = b"
  using assms
proof (induction a arbitrary: b)
  case Nil
  then show ?case by (cases b) (auto simp: variant_bytes_def)
next
  case (Cons x a)
  obtain n v where x: "x = (n, v)" by (cases x)
  from Cons.prems(3) obtain m w b' where b: "b = (m, w) # b'"
    by (cases b) (auto simp: variant_bytes_def x)
  have nf: "0 \<notin> set (utf8 n)" "0 \<notin> set (utf8 m)"
    "\<And>s. v = Some s \<Longrightarrow> 0 \<notin> set (utf8 s)" "\<And>s. w = Some s \<Longrightarrow> 0 \<notin> set (utf8 s)"
    and tl: "signature_nul_free a" "signature_nul_free b'"
    using Cons.prems(1,2) by (auto simp: signature_nul_free_def x b utf8_zero)
  have eq: "utf8 n @ 0 # (case v of Some v \<Rightarrow> 1 # utf8 v | None \<Rightarrow> [0]) @ 0 # variant_bytes a =
      utf8 m @ 0 # (case w of Some v \<Rightarrow> 1 # utf8 v | None \<Rightarrow> [0]) @ 0 # variant_bytes b'"
    using Cons.prems(3) by (simp add: variant_bytes_def x b)
  from append_sep_inject [OF nf(1,2) this]
  have n: "n = m" and rest: "(case v of Some v \<Rightarrow> 1 # utf8 v | None \<Rightarrow> [0]) @ 0 # variant_bytes a =
      (case w of Some v \<Rightarrow> 1 # utf8 v | None \<Rightarrow> [0]) @ 0 # variant_bytes b'"
    by auto
  have "v = w \<and> variant_bytes a = variant_bytes b'"
  proof (cases "\<exists>y z. v = Some y \<and> w = Some z")
    case True
    then obtain y z where yz: "v = Some y" "w = Some z" by blast
    then have "utf8 y @ 0 # variant_bytes a = utf8 z @ 0 # variant_bytes b'" using rest by simp
    from append_sep_inject [OF nf(3) [OF yz(1)] nf(4) [OF yz(2)] this] show ?thesis using yz by simp
  next
    case False
    then show ?thesis using rest by (cases v; cases w) simp_all
  qed
  with n Cons.IH [OF tl] show ?case by (simp add: x b)
qed

lemma hex_digit_inject: "m < 16 \<Longrightarrow> n < 16 \<Longrightarrow> hex_digit m = hex_digit n \<longleftrightarrow> m = n"
proof -
  have "distinct ''0123456789abcdef''" by simp
  then show "m < 16 \<Longrightarrow> n < 16 \<Longrightarrow> hex_digit m = hex_digit n \<longleftrightarrow> m = n"
    unfolding hex_digit_def by (subst nth_eq_iff_index_eq) simp_all
qed

lemma finalize_hex_inject: "finalize_hex a = finalize_hex b \<Longrightarrow> a = b"
proof (induction a arbitrary: b)
  case Nil
  then show ?case by (cases b) (auto simp: finalize_hex_def)
next
  case (Cons x a)
  then obtain y b' where b: "b = y # b'" by (cases b) (auto simp: finalize_hex_def)
  have lt: "unat x div 16 < 16" "unat y div 16 < 16"
    using unsigned_less [of x, where 'a = nat] unsigned_less [of y, where 'a = nat] by simp_all
  have "hex_digit (unat x div 16) = hex_digit (unat y div 16)" "hex_digit (unat x mod 16) = hex_digit (unat y mod 16)"
    and tl: "finalize_hex a = finalize_hex b'"
    using Cons.prems by (simp_all add: finalize_hex_def b)
  then have "unat x div 16 = unat y div 16" "unat x mod 16 = unat y mod 16"
    using hex_digit_inject lt by auto
  then have "unat x = unat y" by (metis div_mult_mod_eq)
  then have "x = y" by (simp add: word_unat_eq_iff)
  with tl Cons.IH b show ?case by blast
qed

subsection \<open>Lemmas: which files are entries\<close>

lemma meta_stem_join: "meta_stem (join_path dir name) = Some vh \<longleftrightarrow> name = vh @ META_SUFFIX"
  by (simp add: meta_stem_def strip_suffix_Some)

lemma meta_stem_Some: "meta_stem p = Some vh \<longleftrightarrow> p \<noteq> [] \<and> last p = vh @ META_SUFFIX"
  by (auto simp: meta_stem_def file_name_def strip_suffix_Some)

lemma meta_stem_meta [simp]: "meta_stem (join_path dir (vh @ META_SUFFIX)) = Some vh"
  by (simp add: meta_stem_join)

lemma meta_stem_body [simp]: "meta_stem (join_path dir (vh @ BODY_SUFFIX)) = None"
proof -
  have "last (vh @ BODY_SUFFIX) \<noteq> last (x @ META_SUFFIX)" for x
    by (simp add: BODY_SUFFIX_def META_SUFFIX_def)
  then have "vh @ BODY_SUFFIX \<noteq> x @ META_SUFFIX" for x by metis
  then show ?thesis by (metis meta_stem_join not_None_eq)
qed

lemma meta_stem_tmp [simp]: "meta_stem (join_path dir (x @ ''.tmp.'' @ u64_to_string n)) = None"
proof -
  have "last (u64_to_string n) \<in> set (show_nat (unat n))"
    by (simp add: u64_to_string_def)
  then have d: "is_ascii_digit (last (u64_to_string n))" by (rule show_nat_digits)
  have "x @ ''.tmp.'' @ u64_to_string n \<noteq> y @ META_SUFFIX" for y
  proof
    assume "x @ ''.tmp.'' @ u64_to_string n = y @ META_SUFFIX"
    then have "last (x @ ''.tmp.'' @ u64_to_string n) = last (y @ META_SUFFIX)" by simp
    then have "last (u64_to_string n) = CHR ''a''" by (simp add: META_SUFFIX_def u64_to_string_def)
    moreover have "\<not> is_ascii_digit CHR ''a''" by code_simp
    ultimately show False using d by simp
  qed
  then show ?thesis by (metis meta_stem_join not_None_eq)
qed

text \<open>The paths of a put handle, as \<open>put\<close> makes them.\<close>

definition handle_paths ::
  "('h, 'i, 'd, 'wr, 'r, 'b) fs_env \<Rightarrow> cache_key \<Rightarrow> ('h, 'wr) fs_put_handle \<Rightarrow> bool" where
  "handle_paths E k w \<longleftrightarrow>
     (\<exists>n vh dir. dir = key_dir E k \<and> vh = variant_hash E (fph_policy w) \<and>
        fph_body_tmp w = join_path dir ((vh @ BODY_SUFFIX) @ ''.tmp.'' @ u64_to_string n) \<and>
        fph_body_final w = join_path dir (vh @ BODY_SUFFIX) \<and>
        fph_meta_tmp w = join_path dir ((vh @ META_SUFFIX) @ ''.tmp.'' @ u64_to_string n) \<and>
        fph_meta_final w = join_path dir (vh @ META_SUFFIX))"

lemma fs_put_paths:
  assumes "fs_put E s k pol = (Inr w, s')"
  shows "handle_paths E k w \<and> fph_policy w = pol"
proof -
  obtain r1 s1 where a: "on_fs (fs_create_dir_all (fe_fault E) (key_dir E k)) s = (r1, s1)" by (metis surj_pair)
  obtain n s2 where b: "fetch_temp s1 = (n, s2)" by (metis surj_pair)
  show ?thesis
    using assms a b
    by (auto simp: fs_put_def Let_def handle_paths_def split: sum.splits prod.splits)
qed

lemma handle_stems:
  assumes "handle_paths E k w"
  shows "meta_stem (fph_body_tmp w) = None" "meta_stem (fph_body_final w) = None"
    "meta_stem (fph_meta_tmp w) = None" "meta_stem (fph_meta_final w) \<noteq> None"
  using assms unfolding handle_paths_def
  by (metis meta_stem_tmp, metis meta_stem_body, metis meta_stem_tmp, metis meta_stem_meta option.distinct(1))

text \<open>The committed entries of a file system: its \<open>.meta\<close> files.\<close>

definition fs_metas :: "fsys \<Rightarrow> (path \<times> bytes) list" where
  "fs_metas f = filter (\<lambda>(p, bs). meta_stem p \<noteq> None) (fs_files f)"

lemma fs_metas_simps:
  "fs_metas (set_file p bs f) = (if meta_stem p \<noteq> None then AList.update p bs (fs_metas f) else fs_metas f)"
  "fs_metas (delete_file p f) = AList.delete p (fs_metas f)"
  "fs_metas (f\<lparr>fs_calls := n\<rparr>) = fs_metas f"
proof -
  have files: "fs_files (set_file p bs f) = AList.update p bs (fs_files f)"
    "fs_files (delete_file p f) = AList.delete p (fs_files f)"
    by (simp_all add: set_file_def delete_file_def)
  show "fs_metas (set_file p bs f) = (if meta_stem p \<noteq> None then AList.update p bs (fs_metas f) else fs_metas f)"
    unfolding fs_metas_def files by (rule filter_AList_update)
  show "fs_metas (delete_file p f) = AList.delete p (fs_metas f)"
    unfolding fs_metas_def files by (rule filter_AList_delete)
qed (simp add: fs_metas_def)

lemma fs_metas_delete_other: "meta_stem p = None \<Longrightarrow> AList.delete p (fs_metas f) = fs_metas f"
  unfolding fs_metas_def using AList_delete_other [where P = "\<lambda>p. meta_stem p \<noteq> None"] by simp

lemma fs_metas_calls:
  assumes "meta_stem p = None"
  shows "fs_metas (snd (fs_close F p bs f)) = fs_metas f"
    and "fs_metas (snd (fs_write F p bs f)) = fs_metas f"
    and "fs_metas (fs_remove_file F p f) = fs_metas f"
    and "meta_stem q = None \<Longrightarrow> fs_metas (snd (fs_rename F p q f)) = fs_metas f"
  using assms
  by (auto simp: fs_close_def fs_write_def fs_remove_file_def fs_rename_def fs_call_def Let_def
      fs_metas_simps fs_metas_delete_other split: option.split prod.split)

lemma fs_drop_metas:
  "meta_stem (fph_body_tmp w) = None \<Longrightarrow> fs_metas (fss_fs (fs_drop E w s)) = fs_metas (fss_fs s)"
  by (simp add: fs_drop_def fs_metas_calls)

lemma on_fs_snd: "fss_fs (snd (on_fs op s)) = snd (op (fss_fs s))"
  by (simp add: on_fs_def split: prod.split)

lemma fs_await_metas:
  assumes "meta_stem (fph_body_tmp (ff_handle fut)) = None" and "fs_await E nxt fut (r0, s1) = (r, fut', s')"
  shows "fs_metas (fss_fs s') = fs_metas (fss_fs s1)"
  using assms by (cases r0) (auto simp: fs_await_def fs_drop_metas)

lemma fs_poll_finalize_metas:
  assumes "handle_paths E k (ff_handle fut)" and "fs_poll_finalize E fut s = (r, fut', s')"
  shows "fs_metas (fss_fs s') = fs_metas (fss_fs s) \<or>
     ff_stage fut = RenamingMeta \<and> r = Ready (Inr ()) \<and>
     (\<exists>bs f removed. fs_lookup (fss_fs s) (fph_meta_tmp (ff_handle fut)) = Some bs \<and>
        fs_metas f = AList.update (fph_meta_final (ff_handle fut)) bs (fs_metas (fss_fs s)) \<and>
        fss_fs s' = foldl (evict_variant E) f removed)"
proof -
  let ?w = "ff_handle fut"
  note st = handle_stems [OF assms(1)]
  have aw: "fs_metas (fss_fs s') = fs_metas (fss_fs s)"
    if "fs_await E nxt fut rs = (r, fut', s')" "fs_metas (fss_fs (snd rs)) = fs_metas (fss_fs s)" for nxt rs
    using fs_await_metas [OF st(1), where nxt = nxt and ?r0.0 = "fst rs" and ?s1.0 = "snd rs"] that by simp
  show ?thesis
  proof (cases "ff_stage fut")
    case Closing
    then have "fs_await E RenamingBody fut
        (on_fs (fs_close (fe_fault E) (fph_body_tmp ?w) (fw_data (fph_writer ?w))) s) = (r, fut', s')"
      using assms(2) by (simp add: fs_poll_finalize_def Let_def)
    from aw [OF this] show ?thesis using fs_metas_calls(1) [OF st(1)] by (simp add: on_fs_snd)
  next
    case RenamingBody
    then have "fs_await E WritingMeta fut
        (on_fs (fs_rename (fe_fault E) (fph_body_tmp ?w) (fph_body_final ?w)) s) = (r, fut', s')"
      using assms(2) by (simp add: fs_poll_finalize_def Let_def)
    from aw [OF this] show ?thesis using fs_metas_calls(4) [OF st(1,2)] by (simp add: on_fs_snd)
  next
    case WritingMeta
    let ?m = "fe_to_bytes E \<lparr>sm_policy = policy_to_repr (fph_policy ?w), sm_trailers = ff_trailers fut\<rparr>"
    have "fs_await E RenamingMeta fut (case ?m of Inl e \<Rightarrow> (Inl e, s)
        | Inr bs \<Rightarrow> on_fs (fs_write (fe_fault E) (fph_meta_tmp ?w) bs) s) = (r, fut', s')"
      using assms(2) WritingMeta by (cases ?m) (simp_all add: fs_poll_finalize_def Let_def)
    from aw [OF this] show ?thesis
      using fs_metas_calls(2) [OF st(3)] by (cases ?m) (simp_all add: on_fs_snd)
  next
    case RenamingMeta
    let ?rn = "fs_rename (fe_fault E) (fph_meta_tmp ?w) (fph_meta_final ?w) (fss_fs s)"
    obtain x f where rn: "?rn = (x, f)" by (metis surj_pair)
    show ?thesis
    proof (cases x)
      case (Inl e)
      then have "fs_metas f = fs_metas (fss_fs s)"
        using rn by (auto simp: fs_rename_def fs_call_def Let_def fs_metas_simps split: option.splits if_splits prod.splits)
      moreover have "fs_await E Finalized fut (Inl e, s\<lparr>fss_fs := f\<rparr>) = (r, fut', s')"
        using assms(2) RenamingMeta Inl rn by (simp add: fs_poll_finalize_def on_fs_def)
      ultimately show ?thesis using aw by simp
    next
      case (Inr u)
      then obtain bs where bs: "fs_lookup (fss_fs s) (fph_meta_tmp ?w) = Some bs"
        and f: "fs_metas f = AList.update (fph_meta_final ?w) bs (fs_metas (fss_fs s))"
        using rn st(3,4)
        by (auto simp: fs_rename_def fs_call_def Let_def fs_metas_simps fs_metas_delete_other
            split: option.splits if_splits prod.splits)
      have "r = Ready (Inr ())" and s': "s' = on_index E (\<lambda>i. ix_insert (fe_index E) i (fph_variant_id ?w) (fph_written ?w))
          (s\<lparr>fss_fs := f\<rparr>)"
        using assms(2) RenamingMeta Inr rn by (simp_all add: fs_poll_finalize_def on_fs_def Let_def)
      moreover have "\<exists>removed. fss_fs s' = foldl (evict_variant E) f removed"
        unfolding s' by (auto simp: on_index_def split: prod.split)
      ultimately show ?thesis using RenamingMeta bs f by blast
    qed
  next
    case Finalized
    then show ?thesis using assms(2) by (simp add: fs_poll_finalize_def)
  qed
qed

subsection \<open>Lemmas: lookups without failures\<close>

text \<open>No call fails and the index evicts nothing.\<close>

definition no_evictions :: "('i, 'd) index_ops \<Rightarrow> bool" where
  "no_evictions I \<longleftrightarrow>
     (\<forall>i v x. x \<in> set (snd (ix_get I i v)) \<longrightarrow> \<not> was_evicted (snd x)) \<and>
     (\<forall>i v n x. x \<in> set (snd (ix_insert I i v n)) \<longrightarrow> \<not> was_evicted (snd x)) \<and>
     (\<forall>i v x. x \<in> set (snd (ix_invalidate I i v)) \<longrightarrow> \<not> was_evicted (snd x))"

lemma evict_none: "(\<And>x. x \<in> set xs \<Longrightarrow> \<not> was_evicted (snd x)) \<Longrightarrow> foldl (evict_variant E) f xs = f"
  by (induction xs) (simp_all add: evict_variant_def split_def)

lemma on_index_quiet:
  assumes "no_evictions (fe_index E)"
  shows "fss_fs (on_index E (\<lambda>i. ix_get (fe_index E) i v) s) = fss_fs s"
    and "fss_fs (on_index E (\<lambda>i. ix_insert (fe_index E) i v n) s) = fss_fs s"
    and "fss_fs (on_index E (\<lambda>i. ix_invalidate (fe_index E) i v) s) = fss_fs s"
  using assms unfolding no_evictions_def
  by (auto simp: on_index_def split_def Let_def intro!: evict_none)

text \<open>The entry a path gives, and the entries of a key.\<close>

definition entry_at ::
  "('h, 'i, 'd, 'wr, 'r, 'b) fs_env \<Rightarrow> cache_key \<Rightarrow> fsys \<Rightarrow> path \<Rightarrow> 'h fs_entry option" where
  "entry_at E k f p =
     (case meta_stem p of
        None \<Rightarrow> None
      | Some vh \<Rightarrow>
          (case fs_lookup f p of
             None \<Rightarrow> None
           | Some bs \<Rightarrow>
               (case fe_from_bytes E bs of
                  Inl e \<Rightarrow> None
                | Inr meta \<Rightarrow>
                    Some \<lparr>fse_meta_path = p, fse_body_path = join_path (key_dir E k) (vh @ BODY_SUFFIX),
                          fse_policy = policy_from_repr (fe_ext E) (sm_policy meta),
                          fse_trailers = sm_trailers meta\<rparr>)))"

definition same_files :: "fsys \<Rightarrow> fsys \<Rightarrow> bool" where
  "same_files f g \<longleftrightarrow> fs_files f = fs_files g \<and> fs_dirs f = fs_dirs g"

lemma same_files_refl [simp]: "same_files f f" "same_files (f\<lparr>fs_calls := n\<rparr>) f"
  by (simp_all add: same_files_def)

lemma same_files_trans: "same_files f g \<Longrightarrow> same_files g h \<Longrightarrow> same_files f h"
  by (simp add: same_files_def)

lemma same_files_lookup: "same_files f g \<Longrightarrow> fs_lookup f p = fs_lookup g p"
  by (simp add: same_files_def fs_lookup_def)

lemma entry_at_file:
  assumes "entry_at E k f p = Some e"
  shows "p \<noteq> []" and "p \<in> fst ` set (fs_files f)"
proof -
  obtain vh bs where "meta_stem p = Some vh" "fs_lookup f p = Some bs"
    using assms by (auto simp: entry_at_def split: option.splits)
  then show "p \<noteq> []" "p \<in> fst ` set (fs_files f)"
    using fs_lookup_dom [of f p] by (simp_all add: meta_stem_Some)
qed

lemma fs_get_path_quiet:
  assumes "fs_quiet (fe_fault E)" and "no_evictions (fe_index E)" and "same_files (fss_fs s) f"
  shows "\<exists>s'. fs_get_path E k (es, s) p = (es @ (case entry_at E k f p of None \<Rightarrow> [] | Some e \<Rightarrow> [e]), s') \<and>
     same_files (fss_fs s') f"
proof (cases "meta_stem p")
  case None
  then show ?thesis using assms(3) by (simp add: fs_get_path_def entry_at_def)
next
  case (Some vh)
  let ?f = "(fss_fs s)\<lparr>fs_calls := fs_calls (fss_fs s) + 1\<rparr>"
  have rd: "on_fs (fs_read (fe_fault E) p) s =
      ((case fs_lookup f p of None \<Rightarrow> Inl not_found | Some bs \<Rightarrow> Inr bs), s\<lparr>fss_fs := ?f\<rparr>)"
    using same_files_lookup [OF assms(3), of p]
    by (simp add: on_fs_def fs_read_def fs_call_quiet [OF assms(1)] split: option.split)
  have same: "same_files ?f f" using assms(3) same_files_trans same_files_refl(2) by blast
  show ?thesis
    using Some rd same on_index_quiet(1) [OF assms(2)]
    by (auto simp: fs_get_path_def entry_at_def Let_def split: option.split sum.split)
qed

lemma fs_get_paths_quiet:
  assumes "fs_quiet (fe_fault E)" and "no_evictions (fe_index E)" and "same_files (fss_fs s) f"
  shows "\<exists>s'. foldl (fs_get_path E k) (es, s) ps = (es @ List.map_filter (entry_at E k f) ps, s') \<and>
     same_files (fss_fs s') f"
  using assms(3)
proof (induction ps arbitrary: es s)
  case Nil
  then show ?case by (simp add: List.map_filter_def)
next
  case (Cons p ps)
  obtain s1 where s1: "fs_get_path E k (es, s) p =
      (es @ (case entry_at E k f p of None \<Rightarrow> [] | Some e \<Rightarrow> [e]), s1)" "same_files (fss_fs s1) f"
    using fs_get_path_quiet [OF assms(1,2) Cons.prems] by blast
  show ?case
    using Cons.IH [OF s1(2), of "es @ (case entry_at E k f p of None \<Rightarrow> [] | Some e \<Rightarrow> [e])"] s1(1)
    by (auto simp: List.map_filter_def split: option.splits)
qed

lemma fs_get_quiet:
  assumes "fs_quiet (fe_fault E)" and "no_evictions (fe_index E)"
  shows "e \<in> set (fst (fs_get E s k)) \<longleftrightarrow>
       key_dir E k \<in> set (fs_dirs (fss_fs s)) \<and>
       (\<exists>p. parent p = key_dir E k \<and> entry_at E k (fss_fs s) p = Some e)"
    and "same_files (fss_fs (snd (fs_get E s k))) (fss_fs s)"
proof -
  let ?f = "fss_fs s" and ?d = "key_dir E k"
  let ?ps = "filter (\<lambda>p. p \<noteq> [] \<and> parent p = ?d) (map fst (fs_files ?f) @ fs_dirs ?f)"
  let ?s = "s\<lparr>fss_fs := ?f\<lparr>fs_calls := fs_calls ?f + 1\<rparr>\<rparr>"
  have rd: "on_fs (fs_read_dir_paths (fe_fault E) ?d) s =
      (if ?d \<in> set (fs_dirs ?f) then Inr ?ps else Inl not_found, ?s)"
    by (simp add: on_fs_def fs_read_dir_paths_def fs_call_quiet [OF assms(1)])
  obtain s' where s': "foldl (fs_get_path E k) ([], ?s) ?ps = ([] @ List.map_filter (entry_at E k ?f) ?ps, s')"
    "same_files (fss_fs s') ?f"
    using fs_get_paths_quiet [OF assms, of ?s ?f k "[]" ?ps] by auto
  have "p \<in> set ?ps \<longleftrightarrow> parent p = ?d" if "entry_at E k ?f p = Some e" for p
    using entry_at_file [OF that] by auto
  then have listed: "(\<exists>p \<in> set ?ps. entry_at E k ?f p = Some e) \<longleftrightarrow> (\<exists>p. parent p = ?d \<and> entry_at E k ?f p = Some e)"
    by blast
  show "e \<in> set (fst (fs_get E s k)) \<longleftrightarrow> ?d \<in> set (fs_dirs ?f) \<and> (\<exists>p. parent p = ?d \<and> entry_at E k ?f p = Some e)"
    using rd s'(1) listed by (simp add: fs_get_def in_set_map_filter)
  show "same_files (fss_fs (snd (fs_get E s k))) ?f"
    using rd s' by (simp add: fs_get_def)
qed

subsection \<open>Lemmas: finalizing without failures\<close>

lemma handle_distinct:
  assumes "handle_paths E k w"
  shows "fph_body_tmp w \<noteq> fph_body_final w" "fph_meta_tmp w \<noteq> fph_meta_final w"
    "fph_body_tmp w \<noteq> fph_meta_tmp w" "fph_body_final w \<noteq> fph_meta_tmp w"
    "fph_body_tmp w \<noteq> fph_meta_final w" "fph_body_final w \<noteq> fph_meta_final w"
  using assms by (auto simp: handle_paths_def BODY_SUFFIX_def META_SUFFIX_def)

lemma handle_parents:
  assumes "handle_paths E k w"
  shows "parent (fph_body_tmp w) = key_dir E k" "parent (fph_body_final w) = key_dir E k"
    "parent (fph_meta_tmp w) = key_dir E k" "parent (fph_meta_final w) = key_dir E k"
  using assms by (auto simp: handle_paths_def)

text \<open>The contents of a file system, without the count of calls.\<close>

definition holds_files :: "fsys \<Rightarrow> (path \<Rightarrow> bytes option) \<Rightarrow> path list \<Rightarrow> bool" where
  "holds_files f m ds \<longleftrightarrow> fs_lookup f = m \<and> fs_dirs f = ds"

lemma fs_call_effects:
  assumes "fs_quiet F" and "holds_files f m ds"
  shows "m p \<noteq> None \<Longrightarrow> \<exists>g. fs_close F p bs f = (Inr (), g) \<and> holds_files g (m(p := Some bs)) ds"
    and "parent p \<in> set ds \<Longrightarrow> \<exists>g. fs_write F p bs f = (Inr (), g) \<and> holds_files g (m(p := Some bs)) ds"
    and "m p = Some bs \<Longrightarrow> parent q \<in> set ds \<Longrightarrow>
      \<exists>g. fs_rename F p q f = (Inr (), g) \<and> holds_files g (m(p := None, q := Some bs)) ds"
    and "parent p \<in> set ds \<Longrightarrow> \<exists>g. fs_create F p f = (Inr (), g) \<and> holds_files g (m(p := Some [])) ds"
    and "\<exists>g. fs_create_dir_all F p f = (Inr (), g) \<and>
      holds_files g m (remdups (ds @ map (\<lambda>n. take n p) [0..<Suc (length p)]))"
    and "m p = Some bs \<Longrightarrow> \<exists>g. fs_open F p f = (Inr bs, g) \<and> holds_files g m ds"
    and "m p = Some bs \<Longrightarrow> \<exists>g. fs_metadata_len F p f = (Inr (word_of_nat (length bs)), g) \<and> holds_files g m ds"
  using assms(2)
  by (auto simp: holds_files_def fs_close_def fs_write_def fs_rename_def fs_create_def fs_create_dir_all_def
      fs_open_def fs_metadata_len_def fs_call_quiet [OF assms(1)] fun_eq_iff)

lemma fs_finalize_polls:
  fixes w :: "('h, 'wr) fs_put_handle"
  defines "fut \<equiv> \<lambda>st tr. \<lparr>ff_stage = st, ff_handle = w, ff_trailers = tr\<rparr>"
  assumes E: "fs_quiet (fe_fault E)" "no_evictions (fe_index E)" and w: "handle_paths E k w"
    and m: "holds_files (fss_fs s) m ds" "m (fph_body_tmp w) \<noteq> None" "key_dir E k \<in> set ds"
    and bs: "fe_to_bytes E \<lparr>sm_policy = policy_to_repr (fph_policy w), sm_trailers = tr\<rparr> = Inr bs"
  obtains s1 s2 s3 s' fut' where
    "fs_poll_finalize E (fut Closing tr) s = (Pending, fut RenamingBody tr, s1)"
    "fs_poll_finalize E (fut RenamingBody tr) s1 = (Pending, fut WritingMeta tr, s2)"
    "fs_poll_finalize E (fut WritingMeta tr) s2 = (Pending, fut RenamingMeta tr, s3)"
    "fs_poll_finalize E (fut RenamingMeta tr) s3 = (Ready (Inr ()), fut', s')"
    "holds_files (fss_fs s') (m(fph_body_tmp w := None, fph_meta_tmp w := None,
       fph_body_final w := Some (fw_data (fph_writer w)), fph_meta_final w := Some bs)) ds"
proof -
  let ?F = "fe_fault E" and ?data = "fw_data (fph_writer w)"
  note par = handle_parents [OF w] and dis = handle_distinct [OF w]
  note poll = fs_poll_finalize_def fs_await_def on_fs_def fut_def Let_def
  obtain f1 where f1: "fs_close ?F (fph_body_tmp w) ?data (fss_fs s) = (Inr (), f1)"
    "holds_files f1 (m(fph_body_tmp w := Some ?data)) ds"
    using fs_call_effects(1) [OF E(1) m(1,2)] by blast
  obtain f2 where f2: "fs_rename ?F (fph_body_tmp w) (fph_body_final w) f1 = (Inr (), f2)"
    "holds_files f2 (m(fph_body_tmp w := None, fph_body_final w := Some ?data)) ds"
    using fs_call_effects(3) [OF E(1) f1(2), of "fph_body_tmp w" ?data "fph_body_final w"] par m(3) by auto
  obtain f3 where f3: "fs_write ?F (fph_meta_tmp w) bs f2 = (Inr (), f3)"
    "holds_files f3 (m(fph_body_tmp w := None, fph_body_final w := Some ?data, fph_meta_tmp w := Some bs)) ds"
    using fs_call_effects(2) [OF E(1) f2(2), of "fph_meta_tmp w"] par m(3) by auto
  obtain f4 where f4: "fs_rename ?F (fph_meta_tmp w) (fph_meta_final w) f3 = (Inr (), f4)"
    "holds_files f4 (m(fph_body_tmp w := None, fph_body_final w := Some ?data, fph_meta_tmp w := None,
       fph_meta_final w := Some bs)) ds"
    using fs_call_effects(3) [OF E(1) f3(2), of "fph_meta_tmp w" bs "fph_meta_final w"] par m(3) by auto
  let ?s' = "on_index E (\<lambda>i. ix_insert (fe_index E) i (fph_variant_id w) (fph_written w)) (s\<lparr>fss_fs := f4\<rparr>)"
  have "fss_fs ?s' = f4" using on_index_quiet(2) [OF E(2)] by simp
  with f4(2) dis have "holds_files (fss_fs ?s') (m(fph_body_tmp w := None, fph_meta_tmp w := None,
      fph_body_final w := Some ?data, fph_meta_final w := Some bs)) ds"
    by (auto simp: fun_upd_twist)
  with f1(1) f2(1) f3(1) f4(1) bs show ?thesis
    by (intro that [of "s\<lparr>fss_fs := f1\<rparr>" "s\<lparr>fss_fs := f2\<rparr>" "s\<lparr>fss_fs := f3\<rparr>" _ ?s']) (simp_all add: poll)
qed

lemma fs_finalize_quiet:
  assumes E: "fs_quiet (fe_fault E)" "no_evictions (fe_index E)" and w: "handle_paths E k w"
    and m: "holds_files (fss_fs s) m ds" "m (fph_body_tmp w) \<noteq> None" "key_dir E k \<in> set ds"
    and bs: "fe_to_bytes E \<lparr>sm_policy = policy_to_repr (fph_policy w), sm_trailers = tr\<rparr> = Inr bs"
  shows "\<exists>s'. await_finalize (fs_put_ops E) (fs_finalize w tr) s = Some (Inr (), s') \<and>
     holds_files (fss_fs s') (m(fph_body_tmp w := None, fph_meta_tmp w := None,
       fph_body_final w := Some (fw_data (fph_writer w)), fph_meta_final w := Some bs)) ds"
proof -
  obtain s1 s2 s3 s' fut' where p: "fs_poll_finalize E (fs_finalize w tr) s = (Pending, \<lparr>ff_stage = RenamingBody, ff_handle = w, ff_trailers = tr\<rparr>, s1)"
    "fs_poll_finalize E \<lparr>ff_stage = RenamingBody, ff_handle = w, ff_trailers = tr\<rparr> s1 =
       (Pending, \<lparr>ff_stage = WritingMeta, ff_handle = w, ff_trailers = tr\<rparr>, s2)"
    "fs_poll_finalize E \<lparr>ff_stage = WritingMeta, ff_handle = w, ff_trailers = tr\<rparr> s2 =
       (Pending, \<lparr>ff_stage = RenamingMeta, ff_handle = w, ff_trailers = tr\<rparr>, s3)"
    "fs_poll_finalize E \<lparr>ff_stage = RenamingMeta, ff_handle = w, ff_trailers = tr\<rparr> s3 = (Ready (Inr ()), fut', s')"
    and h: "holds_files (fss_fs s') (m(fph_body_tmp w := None, fph_meta_tmp w := None,
       fph_body_final w := Some (fw_data (fph_writer w)), fph_meta_final w := Some bs)) ds"
    using fs_finalize_polls [OF assms] unfolding fs_finalize_def by metis
  have "poll_finalize (fs_put_ops E) = fs_poll_finalize E" by (simp add: fs_put_ops_def)
  with p have "await_finalize (fs_put_ops E) (fs_finalize w tr) s = Some (Inr (), s')"
    by (simp add: await_finalize.simps [of "fs_put_ops E"])
  with h show ?thesis by blast
qed

end
