(* ===== verification/Fs_Properties.thy ===== *)
theory Fs_Properties
  imports Fs
begin

section \<open>What the file-system storage guarantees\<close>

text \<open>
  The names of files tell keys and variants apart; an entry appears with the rename of its
  \<open>.meta\<close> file and not before; what was put and finalized is what a later lookup and open
  give back; and what another task can see while an existing entry is being replaced.
\<close>

subsection \<open>Lemmas\<close>

lemma policy_wf_repr: "policy_wf E p \<Longrightarrow> policy_from_repr E (policy_to_repr p) = p"
  by (cases p, cases "options p")
     (auto simp: policy_wf_def policy_from_repr_def policy_to_repr_def Let_def split: prod.splits)

text \<open>SHA-256 does not collide on two given inputs.\<close>

definition no_collision :: "('h, 'i, 'd, 'wr, 'r, 'b) fs_env \<Rightarrow> bytes \<Rightarrow> bytes \<Rightarrow> bool" where
  "no_collision E x y \<longleftrightarrow> (fe_sha256 E x = fe_sha256 E y \<longrightarrow> x = y)"

text \<open>Method names are distinct and contain no space.\<close>

definition method_names_ok :: "('h, 'i, 'd, 'wr, 'r, 'b) fs_env \<Rightarrow> bool" where
  "method_names_ok E \<longleftrightarrow>
     (\<forall>m n. fe_method_str E m = fe_method_str E n \<longrightarrow> m = n) \<and> (\<forall>m. CHR '' '' \<notin> set (fe_method_str E m))"

lemma cache_key_to_string_inject:
  assumes "method_names_ok E"
  shows "cache_key_to_string (fe_method_str E) k = cache_key_to_string (fe_method_str E) k' \<longleftrightarrow> k = k'"
proof
  assume "cache_key_to_string (fe_method_str E) k = cache_key_to_string (fe_method_str E) k'"
  then have "fe_method_str E (key_method k) @ CHR '' '' # key_url k =
      fe_method_str E (key_method k') @ CHR '' '' # key_url k'"
    by (simp add: cache_key_to_string_def)
  from append_sep_inject [OF _ _ this] show "k = k'"
    using assms by (cases k; cases k') (auto simp: method_names_ok_def)
qed simp

lemma handle_paths_written [simp]:
  "handle_paths E k (w\<lparr>fph_writer := wr, fph_written := n\<rparr>) = handle_paths E k w"
  by (simp add: handle_paths_def)

lemma fs_put_quiet:
  assumes "fs_quiet (fe_fault E)" and "fs_put E s k pol = (Inr w, s1)" and "holds_files (fss_fs s) m ds"
  shows "\<exists>ds'. holds_files (fss_fs s1) (m(fph_body_tmp w := Some [])) ds' \<and> set ds \<subseteq> set ds' \<and>
     key_dir E k \<in> set ds' \<and> fph_writer w = \<lparr>fw_handle = fe_writer E, fw_data = []\<rparr>"
proof -
  let ?d = "key_dir E k" and ?F = "fe_fault E"
  let ?ds = "remdups (ds @ map (\<lambda>n. take n ?d) [0..<Suc (length ?d)])"
  obtain f1 where f1: "fs_create_dir_all ?F ?d (fss_fs s) = (Inr (), f1)" "holds_files f1 m ?ds"
    using fs_call_effects(5) [OF assms(1,3)] by blast
  have d: "?d \<in> set ?ds" by (auto intro!: image_eqI [of _ _ "length ?d"])
  let ?tmp = "join_path ?d (variant_hash E pol @ BODY_SUFFIX @ ''.tmp.'' @ u64_to_string (fss_temp s))"
  obtain f2 where f2: "fs_create ?F ?tmp f1 = (Inr (), f2)" "holds_files f2 (m(?tmp := Some [])) ?ds"
    using fs_call_effects(4) [OF assms(1) f1(2), of ?tmp] d by auto
  have "fph_body_tmp w = ?tmp" "fss_fs s1 = f2" "fph_writer w = \<lparr>fw_handle = fe_writer E, fw_data = []\<rparr>"
    using assms(2) f1(1) f2(1) by (auto simp: fs_put_def on_fs_def fetch_temp_def Let_def)
  then show ?thesis using f2(2) d by auto
qed

lemma entry_at_cong: "fs_lookup f p = fs_lookup g p \<Longrightarrow> entry_at E k f p = entry_at E k g p"
  unfolding entry_at_def by (erule ssubst) (rule refl)

lemma entry_at_path: "entry_at E k f p = Some e \<Longrightarrow> fse_meta_path e = p \<and> fs_lookup f p \<noteq> None \<and> meta_stem p \<noteq> None"
  by (auto simp: entry_at_def split: option.splits sum.splits)

lemma fs_open_quiet:
  assumes "fs_quiet (fe_fault E)" and "fs_lookup (fss_fs s) (fse_body_path e) = Some bs"
  shows "fst (fs_entry_open E e s) =
     Inr (fe_new_body E \<lparr>fbs_reader = fe_reader E bs, fbs_trailers = fse_trailers e\<rparr> (Some (word_of_nat (length bs))))"
  using assms(2)
  by (simp add: fs_entry_open_def on_fs_def fs_metadata_len_def fs_open_def fs_call_quiet [OF assms(1)])

lemma map_of_filter_key: "P p \<Longrightarrow> map_of (filter (\<lambda>(q, b). P q) xs) p = map_of xs p"
  by (induction xs) auto

lemma inside_key_dir: "parent p = key_dir E k' \<Longrightarrow> inside (key_dir E k) p \<longleftrightarrow> key_dir E k' = key_dir E k"
  by (cases p rule: rev_cases) (auto simp: inside_def parent_def key_dir_def join_path_def)

lemma inside_key_dirs: "inside (key_dir E k) (key_dir E k') \<longleftrightarrow> key_dir E k' = key_dir E k"
  by (auto simp: inside_def key_dir_def join_path_def)

text \<open>What \<open>invalidate\<close> leaves of the files when no call fails.\<close>

lemma fs_invalidate_files:
  assumes "fs_quiet (fe_fault E)" and "no_evictions (fe_index E)"
  obtains f where "same_files f (fss_fs s)"
    "fss_fs (fs_invalidate E s k) = snd (fs_remove_dir_all (fe_fault E) (key_dir E k) f)"
proof -
  obtain x s1 where r: "on_fs (fs_read_dir_paths (fe_fault E) (key_dir E k)) s = (x, s1)" by (metis surj_pair)
  then have same: "same_files (fss_fs s1) (fss_fs s)"
    by (auto simp: on_fs_def fs_read_dir_paths_def fs_call_quiet [OF assms(1)] split: if_splits)
  have clear: "fss_fs (foldl (\<lambda>s p. case meta_stem p of None \<Rightarrow> s
      | Some vh \<Rightarrow> on_index E (\<lambda>i. ix_invalidate (fe_index E) i
          \<lparr>vi_key_hash = key_hash E k, vi_variant_hash = vh\<rparr>) s) t ps) = fss_fs t" for t ps
    by (induction ps arbitrary: t) (auto simp: on_index_quiet(3) [OF assms(2)] split: option.split)
  have "fss_fs (fs_invalidate E s k) = snd (fs_remove_dir_all (fe_fault E) (key_dir E k) (fss_fs s1))"
    using r clear by (cases x) (simp_all add: fs_invalidate_def on_fs_snd)
  with same that show ?thesis by blast
qed

subsection \<open>An environment for the witnesses\<close>

text \<open>
  Nothing fails, nothing is evicted, the hash is the identity, and the encoding knows two
  values.
\<close>

fun ref_method_str :: "http_method \<Rightarrow> string" where
  "ref_method_str Get = ''GET''"
| "ref_method_str Head = ''HEAD''"
| "ref_method_str Post = ''POST''"
| "ref_method_str Put = ''PUT''"
| "ref_method_str (OtherMethod s) = finalize_hex (utf8 s)"

definition ref_index :: "(unit, unit) index_ops" where
  "ref_index =
     \<lparr>ix_builder = (\<lambda>w. ()), ix_max_capacity = (\<lambda>b n. ()), ix_time_to_idle = (\<lambda>b n. ()),
      ix_time_to_live = (\<lambda>b n. ()), ix_build = id, ix_get = (\<lambda>i v. (i, [])), ix_insert = (\<lambda>i v n. (i, [])),
      ix_invalidate = (\<lambda>i v. (i, [])), ix_run_pending_tasks = (\<lambda>i. (i, []))\<rparr>"

definition ref_meta :: "string \<Rightarrow> hmap stored_meta" where
  "ref_meta cc = \<lparr>sm_policy = policy_to_repr (ref_policy cc 0), sm_trailers = None\<rparr>"

definition ref_fs_env :: "(hmap, unit, unit, unit, bytes, (hmap, bytes) fs_body_source) fs_env" where
  "ref_fs_env =
     \<lparr>fe_ext = ref_env, fe_root = [''cache''], fe_fault = (\<lambda>n. None), fe_sha256 = id,
      fe_method_str = ref_method_str,
      fe_to_bytes = (\<lambda>m. if m = ref_meta ''max-age=600'' then Inr [1]
        else if m = ref_meta ''max-age=1'' then Inr [2] else Inl (IoError ''invalid data'')),
      fe_from_bytes = (\<lambda>bs. if bs = [1] then Inr (ref_meta ''max-age=600'')
        else if bs = [2] then Inr (ref_meta ''max-age=1'') else Inl (IoError ''invalid data'')),
      fe_index = ref_index, fe_writer = (), fe_poll_write = (\<lambda>w buf. (Ready (Inr (length buf)), ())),
      fe_reader = id, fe_poll_read = (\<lambda>bs n. (Ready (Inr (take n bs)), drop n bs)),
      fe_new_body = (\<lambda>src len. src)\<rparr>"

definition ref_fs_state :: "unit fs_state" where
  "ref_fs_state = \<lparr>fss_fs = \<lparr>fs_files = [], fs_dirs = [], fs_calls = 0\<rparr>, fss_index = (), fss_temp = 0\<rparr>"

lemma finalize_hex_chars: "c \<in> set (finalize_hex bs) \<Longrightarrow> c \<in> set ''0123456789abcdef''"
proof -
  define D where "D = set ''0123456789abcdef''"
  have digit: "hex_digit n \<in> D" if "n < 16" for n
    unfolding hex_digit_def D_def using that by (intro nth_mem) simp
  have "unat b div 16 < 16" for b :: "8 word"
    using unsigned_less [of b, where 'a = nat] by simp
  then have "c \<in> set (finalize_hex bs) \<Longrightarrow> c \<in> D"
    unfolding finalize_hex_def by (auto intro: digit)
  then show "c \<in> set (finalize_hex bs) \<Longrightarrow> c \<in> set ''0123456789abcdef''" by (simp only: D_def)
qed

lemma ref_method_names_ok: "method_names_ok ref_fs_env"
proof -
  have sp: "CHR '' '' \<notin> set (ref_method_str m)" for m
    using finalize_hex_chars [of "CHR '' ''"] by (cases m) auto
  have hex: "finalize_hex bs \<noteq> ''GET''" "finalize_hex bs \<noteq> ''HEAD''" "finalize_hex bs \<noteq> ''POST''"
    "finalize_hex bs \<noteq> ''PUT''" for bs
    using finalize_hex_chars [of "CHR ''T''" bs] finalize_hex_chars [of "CHR ''H''" bs] by auto
  have "m = n" if "ref_method_str m = ref_method_str n" for m n
    using that hex hex [symmetric] finalize_hex_inject [THEN iffD1 [OF utf8_inject]] by (cases m; cases n) auto
  with sp show ?thesis by (auto simp: method_names_ok_def ref_fs_env_def)
qed

lemma ref_quiet: "fs_quiet (fe_fault ref_fs_env)" "no_evictions (fe_index ref_fs_env)"
  "fs_ok ref_fs_env" "fs_wf (fss_fs ref_fs_state)"
  by (simp_all add: fs_quiet_def no_evictions_def fs_ok_def fs_wf_def ref_fs_env_def ref_index_def
      ref_fs_state_def fs_lookup_def)

subsection \<open>Properties\<close>

text \<open>
  C38: the names of files identify what is stored: two keys share a directory only if they are
  equal, and two policies under a key share their files only if they have the same \<open>Vary\<close>
  signature, unless SHA-256 collides on the bytes hashed for them. What is hashed is
  unambiguous: names and values of header fields contain no \<open>NUL\<close>, methods no space.
\<close>

theorem file_names_identify:
  assumes "method_names_ok E" and "signature_nul_free (vary_snapshot p)" and "signature_nul_free (vary_snapshot q)"
    and "no_collision E (variant_bytes (vary_snapshot p)) (variant_bytes (vary_snapshot q))"
    and "no_collision E (utf8 (cache_key_to_string (fe_method_str E) k)) (utf8 (cache_key_to_string (fe_method_str E) k'))"
  shows "(variant_hash E p = variant_hash E q \<longleftrightarrow> same_variant_as p q) \<and> (key_dir E k = key_dir E k' \<longleftrightarrow> k = k')"
proof
  show "variant_hash E p = variant_hash E q \<longleftrightarrow> same_variant_as p q"
    using assms(4) variant_bytes_inject [OF assms(2,3)] finalize_hex_inject
    unfolding variant_hash_def same_variant_as_def no_collision_def by metis
  show "key_dir E k = key_dir E k' \<longleftrightarrow> k = k'"
    using assms(5) finalize_hex_inject cache_key_to_string_inject [OF assms(1)]
    unfolding key_dir_def key_hash_def hash_hex_def no_collision_def by (metis parent_join(4) utf8_inject)
qed

theorem file_names_identify_witness:
  "variant_hash ref_fs_env (ref_policy ''max-age=600'' 0) = variant_hash ref_fs_env (ref_policy ''max-age=1'' 0) \<and>
   key_dir ref_fs_env (cache_key_new Get ''http://h/a'') \<noteq> key_dir ref_fs_env (cache_key_new Head ''http://h/a'')"
proof -
  have sig: "signature_nul_free (vary_snapshot (ref_policy cc 0))" for cc
    by (simp add: ref_policy_def build_vary_snapshot_def signature_nul_free_def ref_env_def ref_get_values_def)
  have same: "same_variant_as (ref_policy ''max-age=600'' 0) (ref_policy ''max-age=1'' 0)" by code_simp
  have nc: "no_collision ref_fs_env x y" for x y by (simp add: no_collision_def ref_fs_env_def)
  from file_names_identify [OF ref_method_names_ok sig sig nc nc, of "''max-age=600''" "''max-age=1''"
      "cache_key_new Get ''http://h/a''" "cache_key_new Head ''http://h/a''"] same
  show ?thesis by (simp add: cache_key_new_def)
qed

text \<open>
  The rename of the \<open>.meta\<close> file is the commit point. Whatever fails, and wherever a
  finalize is suspended, a poll of it leaves the \<open>.meta\<close> files of the whole storage as they
  were, or it is the last one, succeeds, and gives the variant's \<open>.meta\<close> file the contents
  written before (evictions by the capacity index aside). Abandoning the put changes none.
\<close>

theorem meta_rename_commits:
  assumes "fs_put E s0 k pol = (Inr w0, s1)"
    and "ff_handle fut = w0\<lparr>fph_writer := wr, fph_written := n\<rparr>"
    and "fs_poll_finalize E fut s = (r, fut', s')"
  shows "(fs_metas (fss_fs s') = fs_metas (fss_fs s) \<or>
      ff_stage fut = RenamingMeta \<and> r = Ready (Inr ()) \<and>
      (\<exists>bs f removed. fs_lookup (fss_fs s) (fph_meta_tmp w0) = Some bs \<and>
         fs_metas f = AList.update (fph_meta_final w0) bs (fs_metas (fss_fs s)) \<and>
         fss_fs s' = foldl (evict_variant E) f removed)) \<and>
     fs_metas (fss_fs (fs_drop E (ff_handle fut) s)) = fs_metas (fss_fs s)"
proof -
  have w: "handle_paths E k (ff_handle fut)"
    using fs_put_paths [OF assms(1)] by (simp add: assms(2))
  from fs_poll_finalize_metas [OF w assms(3)] fs_drop_metas [OF handle_stems(1) [OF w]] show ?thesis
    by (simp add: assms(2))
qed

text \<open>
  C11: what is put and finalized is what a later lookup and open give back: when no call of the
  file system fails and nothing is evicted, finalizing returns without an error, a lookup of
  the key then shows an entry with the policy and trailers of the put, and opening it reads
  exactly the bytes the writer accepted. Every other entry of every key stays as it was.
\<close>

theorem fs_put_get_roundtrip:
  assumes "fs_quiet (fe_fault E)" and "no_evictions (fe_index E)" and "fs_wf (fss_fs s)"
    and "\<forall>m bs. fe_to_bytes E m = Inr bs \<longrightarrow> fe_from_bytes E bs = Inr m"
    and "policy_wf (fe_ext E) pol"
    and "fe_to_bytes E \<lparr>sm_policy = policy_to_repr pol, sm_trailers = tr\<rparr> = Inr bs"
    and "fs_put E s k pol = (Inr w, s1)"
  shows "\<exists>s2. await_finalize (fs_put_ops E) (fs_finalize (w\<lparr>fph_writer := wr, fph_written := n\<rparr>) tr) s1
       = Some (Inr (), s2) \<and>
     (\<exists>e \<in> set (fst (fs_get E s2 k)). fse_meta_path e = fph_meta_final w \<and> fse_policy e = pol \<and>
        fse_trailers e = tr \<and>
        fst (fs_entry_open E e s2) = Inr (fe_new_body E \<lparr>fbs_reader = fe_reader E (fw_data wr),
          fbs_trailers = tr\<rparr> (Some (word_of_nat (length (fw_data wr)))))) \<and>
     (\<forall>k' e. fse_meta_path e \<noteq> fph_meta_final w \<longrightarrow>
        e \<in> set (fst (fs_get E s2 k')) \<longleftrightarrow> e \<in> set (fst (fs_get E s k')))"
proof -
  let ?w = "w\<lparr>fph_writer := wr, fph_written := n\<rparr>" and ?m = "fs_lookup (fss_fs s)"
  have w: "handle_paths E k ?w" and pol: "fph_policy w = pol"
    using fs_put_paths [OF assms(7)] by simp_all
  note stems = handle_stems [OF w, simplified] and dis = handle_distinct [OF w, simplified]
    and par = handle_parents [OF w, simplified]
  obtain ds where ds: "holds_files (fss_fs s1) (?m(fph_body_tmp w := Some [])) ds"
    "set (fs_dirs (fss_fs s)) \<subseteq> set ds" "key_dir E k \<in> set ds"
    using fs_put_quiet [OF assms(1,7), of ?m "fs_dirs (fss_fs s)"] by (auto simp: holds_files_def)
  obtain s2 where s2: "await_finalize (fs_put_ops E) (fs_finalize ?w tr) s1 = Some (Inr (), s2)"
    "holds_files (fss_fs s2) (?m(fph_body_tmp w := None, fph_meta_tmp w := None,
       fph_body_final w := Some (fw_data wr), fph_meta_final w := Some bs)) ds"
    using fs_finalize_quiet [OF assms(1,2) w ds(1) _ ds(3), of tr bs] assms(6) pol by auto
  then have look: "fs_lookup (fss_fs s2) (fph_meta_final w) = Some bs"
    "fs_lookup (fss_fs s2) (fph_body_final w) = Some (fw_data wr)"
    "\<And>p. meta_stem p \<noteq> None \<Longrightarrow> p \<noteq> fph_meta_final w \<Longrightarrow> fs_lookup (fss_fs s2) p = ?m p"
    and dirs: "fs_dirs (fss_fs s2) = ds"
    using dis stems by (auto simp: holds_files_def)
  obtain vh where vh: "meta_stem (fph_meta_final w) = Some vh"
    "join_path (key_dir E k) (vh @ BODY_SUFFIX) = fph_body_final w"
    using w by (auto simp: handle_paths_def)
  have dec: "fe_from_bytes E bs = Inr \<lparr>sm_policy = policy_to_repr pol, sm_trailers = tr\<rparr>"
    using assms(4,6) by blast
  let ?e = "\<lparr>fse_meta_path = fph_meta_final w, fse_body_path = fph_body_final w, fse_policy = pol, fse_trailers = tr\<rparr>"
  have at: "entry_at E k (fss_fs s2) (fph_meta_final w) = Some ?e"
    using look(1) vh dec policy_wf_repr [OF assms(5)] by (simp add: entry_at_def)
  have new: "?e \<in> set (fst (fs_get E s2 k))"
    unfolding fs_get_quiet(1) [OF assms(1,2)] using at par(4) ds(3) dirs by blast
  have old: "e \<in> set (fst (fs_get E s2 k')) \<longleftrightarrow> e \<in> set (fst (fs_get E s k'))"
    if "fse_meta_path e \<noteq> fph_meta_final w" for k' e
  proof -
    have "entry_at E k' (fss_fs s2) p = Some e \<longleftrightarrow> entry_at E k' (fss_fs s) p = Some e" for p
      using that look(3) [of p] entry_at_cong [of "fss_fs s2" p "fss_fs s" E k'] entry_at_path [of E k' _ p e]
      by metis
    moreover have "key_dir E k' \<in> set (fs_dirs (fss_fs s))"
      if "entry_at E k' (fss_fs s) p = Some e" "parent p = key_dir E k'" for p
      using assms(3) entry_at_path [OF that(1)] that(2) by (auto simp: fs_wf_def)
    ultimately show ?thesis
      unfolding fs_get_quiet(1) [OF assms(1,2)] dirs using ds(2) by blast
  qed
  have "fst (fs_entry_open E ?e s2) = Inr (fe_new_body E \<lparr>fbs_reader = fe_reader E (fw_data wr),
      fbs_trailers = tr\<rparr> (Some (word_of_nat (length (fw_data wr)))))"
    using fs_open_quiet [OF assms(1), of s2 ?e] look(2) by simp
  with s2(1) new old show ?thesis by (intro exI [of _ s2] conjI bexI [of _ ?e]) simp_all
qed

lemma ref_fs_put:
  obtains w s1 where "fs_put ref_fs_env ref_fs_state ref_key (ref_policy ''max-age=600'' 0) = (Inr w, s1)"
  by (simp add: fs_put_def on_fs_def fs_create_dir_all_def fs_create_def fs_call_quiet [OF ref_quiet(1)]
      fetch_temp_def key_dir_def join_path_def parent_def Let_def)

lemma ref_codec:
  "\<forall>m bs. fe_to_bytes ref_fs_env m = Inr bs \<longrightarrow> fe_from_bytes ref_fs_env bs = Inr m"
  by (auto simp: ref_fs_env_def split: if_splits)

theorem fs_put_get_roundtrip_witness:
  "\<exists>w s1 s2 e. fs_put ref_fs_env ref_fs_state ref_key (ref_policy ''max-age=600'' 0) = (Inr w, s1) \<and>
     await_finalize (fs_put_ops ref_fs_env)
       (fs_finalize (w\<lparr>fph_writer := \<lparr>fw_handle = (), fw_data = [104, 105]\<rparr>, fph_written := 2\<rparr>) None) s1
       = Some (Inr (), s2) \<and>
     e \<in> set (fst (fs_get ref_fs_env s2 ref_key)) \<and>
     fst (fs_entry_open ref_fs_env e s2) = Inr \<lparr>fbs_reader = [104, 105], fbs_trailers = None\<rparr>"
proof -
  obtain w s1 where put: "fs_put ref_fs_env ref_fs_state ref_key (ref_policy ''max-age=600'' 0) = (Inr w, s1)"
    by (rule ref_fs_put)
  have wf: "policy_wf (fe_ext ref_fs_env) (ref_policy ''max-age=600'' 0)"
    by (simp add: ref_fs_env_def ref_policy_def)
  have enc: "fe_to_bytes ref_fs_env \<lparr>sm_policy = policy_to_repr (ref_policy ''max-age=600'' 0), sm_trailers = None\<rparr> = Inr [1]"
    by (simp add: ref_fs_env_def ref_meta_def)
  from fs_put_get_roundtrip [where wr = "\<lparr>fw_handle = (), fw_data = [104, 105]\<rparr>" and n = 2,
      OF ref_quiet(1,2,4) ref_codec wf enc put] put
  show ?thesis by (auto simp: ref_fs_env_def)
qed

theorem meta_rename_commits_witness:
  "\<exists>w s1 r fut' s'. fs_put ref_fs_env ref_fs_state ref_key (ref_policy ''max-age=600'' 0) = (Inr w, s1) \<and>
     fs_poll_finalize ref_fs_env (fs_finalize w None) s1 = (r, fut', s') \<and>
     fs_metas (fss_fs s') = fs_metas (fss_fs s1)"
proof -
  obtain w s1 where put: "fs_put ref_fs_env ref_fs_state ref_key (ref_policy ''max-age=600'' 0) = (Inr w, s1)"
    by (rule ref_fs_put)
  obtain r fut' s' where p: "fs_poll_finalize ref_fs_env (fs_finalize w None) s1 = (r, fut', s')"
    by (metis prod_cases3)
  have h: "ff_handle (fs_finalize w None) = w\<lparr>fph_writer := fph_writer w, fph_written := fph_written w\<rparr>"
    by (simp add: fs_finalize_def)
  have "ff_stage (fs_finalize w None) \<noteq> RenamingMeta" by (simp add: fs_finalize_def)
  with meta_rename_commits [OF put h p] put p show ?thesis by blast
qed

text \<open>
  C39: replacing an existing entry is not atomic. When the new body has been renamed into place
  and the new \<open>.meta\<close> file has not, which other tasks can observe and a crash or a failing
  write makes permanent, a lookup shows the old policy and opening the entry reads the new
  body.
\<close>

theorem replacing_exposes_mixed_entry:
  assumes "fs_quiet (fe_fault E)" and "no_evictions (fe_index E)" and "fs_put E s0 k pol = (Inr w, s1)"
    and "ff_handle fut = w\<lparr>fph_writer := wr, fph_written := n\<rparr>" and "ff_stage fut = RenamingBody"
    and "key_dir E k \<in> set (fs_dirs (fss_fs s))" and "fs_lookup (fss_fs s) (fph_body_tmp w) = Some new_body"
    and "fs_lookup (fss_fs s) (fph_meta_final w) = Some bs" and "fe_from_bytes E bs = Inr old"
  shows "\<exists>fut' s'. fs_poll_finalize E fut s = (Pending, fut', s') \<and>
     (\<exists>e \<in> set (fst (fs_get E s' k)). fse_policy e = policy_from_repr (fe_ext E) (sm_policy old) \<and>
        fse_trailers e = sm_trailers old \<and>
        fst (fs_entry_open E e s') = Inr (fe_new_body E \<lparr>fbs_reader = fe_reader E new_body,
          fbs_trailers = sm_trailers old\<rparr> (Some (word_of_nat (length new_body)))))"
proof -
  have w: "handle_paths E k w" using fs_put_paths [OF assms(3)] by simp
  note dis = handle_distinct [OF w] and par = handle_parents [OF w]
  obtain f where f: "fs_rename (fe_fault E) (fph_body_tmp w) (fph_body_final w) (fss_fs s) = (Inr (), f)"
    "holds_files f ((fs_lookup (fss_fs s))(fph_body_tmp w := None, fph_body_final w := Some new_body))
       (fs_dirs (fss_fs s))"
    using fs_call_effects(3) [OF assms(1), of "fss_fs s" "fs_lookup (fss_fs s)" "fs_dirs (fss_fs s)"
        "fph_body_tmp w" new_body "fph_body_final w"] assms(6,7) par by (auto simp: holds_files_def)
  let ?s = "s\<lparr>fss_fs := f\<rparr>"
  have p: "fs_poll_finalize E fut s = (Pending, fut\<lparr>ff_stage := WritingMeta\<rparr>, ?s)"
    using f(1) assms(4,5) by (simp add: fs_poll_finalize_def fs_await_def on_fs_def)
  have look: "fs_lookup f (fph_meta_final w) = Some bs" "fs_lookup f (fph_body_final w) = Some new_body"
    and dirs: "fs_dirs f = fs_dirs (fss_fs s)"
    using f(2) assms(8) dis by (auto simp: holds_files_def)
  obtain vh where vh: "meta_stem (fph_meta_final w) = Some vh"
    "join_path (key_dir E k) (vh @ BODY_SUFFIX) = fph_body_final w"
    using w by (auto simp: handle_paths_def)
  let ?e = "\<lparr>fse_meta_path = fph_meta_final w, fse_body_path = fph_body_final w,
      fse_policy = policy_from_repr (fe_ext E) (sm_policy old), fse_trailers = sm_trailers old\<rparr>"
  have "entry_at E k f (fph_meta_final w) = Some ?e"
    using look(1) vh assms(9) by (simp add: entry_at_def)
  then have new: "?e \<in> set (fst (fs_get E ?s k))"
    unfolding fs_get_quiet(1) [OF assms(1,2)] using par(4) assms(6) dirs by auto
  have "fst (fs_entry_open E ?e ?s) = Inr (fe_new_body E \<lparr>fbs_reader = fe_reader E new_body,
      fbs_trailers = sm_trailers old\<rparr> (Some (word_of_nat (length new_body))))"
    using fs_open_quiet [OF assms(1), of ?s ?e new_body] look(2) by simp
  with p new show ?thesis by (intro exI [of _ "fut\<lparr>ff_stage := WritingMeta\<rparr>"] exI [of _ ?s] conjI bexI [of _ ?e]) simp_all
qed

theorem replacing_exposes_mixed_entry_witness:
  "\<exists>w s fut fut' s' e. fs_poll_finalize ref_fs_env fut s = (Pending, fut', s') \<and>
     ff_handle fut = w \<and> fph_policy w = ref_policy ''max-age=600'' 0 \<and>
     e \<in> set (fst (fs_get ref_fs_env s' ref_key)) \<and> fse_policy e = ref_policy ''max-age=1'' 0 \<and>
     fst (fs_entry_open ref_fs_env e s') = Inr \<lparr>fbs_reader = [104, 105], fbs_trailers = None\<rparr>"
proof -
  obtain w s1 where put: "fs_put ref_fs_env ref_fs_state ref_key (ref_policy ''max-age=600'' 0) = (Inr w, s1)"
    by (rule ref_fs_put)
  note w = fs_put_paths [OF put]
  let ?fut = "\<lparr>ff_stage = RenamingBody, ff_handle = w, ff_trailers = None\<rparr>"
  let ?s = "\<lparr>fss_fs = \<lparr>fs_files = [(fph_body_tmp w, [104, 105]), (fph_meta_final w, [2])],
      fs_dirs = [key_dir ref_fs_env ref_key], fs_calls = 0\<rparr>, fss_index = (), fss_temp = 1\<rparr>"
  have h: "ff_handle ?fut = w\<lparr>fph_writer := fph_writer w, fph_written := fph_written w\<rparr>" "ff_stage ?fut = RenamingBody"
    by simp_all
  have look: "key_dir ref_fs_env ref_key \<in> set (fs_dirs (fss_fs ?s))"
    "fs_lookup (fss_fs ?s) (fph_body_tmp w) = Some [104, 105]" "fs_lookup (fss_fs ?s) (fph_meta_final w) = Some [2]"
    using handle_distinct(5) [OF conjunct1 [OF w]] by (simp_all add: fs_lookup_def)
  have old: "fe_from_bytes ref_fs_env [2] = Inr (ref_meta ''max-age=1'')" by (simp add: ref_fs_env_def)
  have pol: "policy_from_repr (fe_ext ref_fs_env) (sm_policy (ref_meta ''max-age=1'')) = ref_policy ''max-age=1'' 0"
    "sm_trailers (ref_meta ''max-age=1'') = None"
    using policy_wf_repr [of ref_env "ref_policy ''max-age=1'' 0"]
    by (simp_all add: ref_meta_def ref_fs_env_def ref_policy_def)
  have body: "fe_new_body ref_fs_env = (\<lambda>src len. src)" "fe_reader ref_fs_env = id" by (simp_all add: ref_fs_env_def)
  have hw: "ff_handle ?fut = w" by simp
  from replacing_exposes_mixed_entry [OF ref_quiet(1,2) put h look old] pol body w hw
  show ?thesis by (metis id_apply)
qed

text \<open>
  C40: invalidating a key removes all of its entries and no entry of a key in another directory,
  when no call of the file system fails and the index evicts nothing.
\<close>

theorem fs_invalidate_empties:
  assumes "fs_quiet (fe_fault E)" and "no_evictions (fe_index E)"
  shows "fst (fs_get E (fs_invalidate E s k) k) = [] \<and>
     (\<forall>k'. key_dir E k' \<noteq> key_dir E k \<longrightarrow>
        set (fst (fs_get E (fs_invalidate E s k) k')) = set (fst (fs_get E s k')))"
proof -
  let ?d = "key_dir E k" and ?g = "fss_fs (fs_invalidate E s k)"
  obtain f where f: "same_files f (fss_fs s)" "?g = snd (fs_remove_dir_all (fe_fault E) ?d f)"
    using fs_invalidate_files [OF assms] by blast
  have dirs: "key_dir E k' \<in> set (fs_dirs ?g) \<longleftrightarrow> key_dir E k' \<in> set (fs_dirs (fss_fs s)) \<and> key_dir E k' \<noteq> ?d" for k'
    using f inside_key_dirs [of E k k']
    by (auto simp: fs_remove_dir_all_def fs_call_quiet [OF assms(1)] same_files_def)
  have look: "fs_lookup ?g p = fs_lookup (fss_fs s) p"
    if "parent p = key_dir E k'" "key_dir E k' \<noteq> ?d" for p k'
    using f that inside_key_dir [OF that(1), of k]
      map_of_filter_key [of "\<lambda>q. \<not> inside ?d q" p "fs_files (fss_fs s)"]
    by (simp add: fs_remove_dir_all_def fs_call_quiet [OF assms(1)] same_files_def fs_lookup_def)
  have "e \<in> set (fst (fs_get E (fs_invalidate E s k) k')) \<longleftrightarrow> e \<in> set (fst (fs_get E s k'))"
    if "key_dir E k' \<noteq> ?d" for e k'
    unfolding fs_get_quiet(1) [OF assms] dirs
    using that entry_at_cong [OF look] by metis
  moreover have "e \<notin> set (fst (fs_get E (fs_invalidate E s k) k))" for e
    unfolding fs_get_quiet(1) [OF assms] dirs by simp
  then have "fst (fs_get E (fs_invalidate E s k) k) = []" by (metis last_in_set)
  ultimately show ?thesis by blast
qed

theorem fs_invalidate_empties_witness:
  "\<exists>s. fst (fs_get ref_fs_env s ref_key) \<noteq> [] \<and>
     fst (fs_get ref_fs_env (fs_invalidate ref_fs_env s ref_key) ref_key) = []"
proof -
  let ?d = "key_dir ref_fs_env ref_key" and ?p = "join_path (key_dir ref_fs_env ref_key) (''v'' @ META_SUFFIX)"
  let ?s = "\<lparr>fss_fs = \<lparr>fs_files = [(?p, [1])], fs_dirs = [?d], fs_calls = 0\<rparr>, fss_index = (), fss_temp = 0\<rparr>"
  obtain e where "entry_at ref_fs_env ref_key (fss_fs ?s) ?p = Some e"
    using meta_stem_meta [of ?d "''v''"] by (simp add: entry_at_def fs_lookup_def ref_fs_env_def)
  then have "e \<in> set (fst (fs_get ref_fs_env ?s ref_key))"
    unfolding fs_get_quiet(1) [OF ref_quiet(1,2)] by (auto intro: exI [of _ ?p])
  then have "fst (fs_get ref_fs_env ?s ref_key) \<noteq> []" by force
  with fs_invalidate_empties [OF ref_quiet(1,2), of ?s ref_key] show ?thesis by blast
qed

text \<open>
  Refreshing an entry whose files the capacity index has evicted since the lookup brings its
  \<open>.meta\<close> file back without a body: lookups show the entry and opening it fails.
\<close>

lemma refresh_revives_evicted:
  assumes "fs_quiet (fe_fault E)" and "no_evictions (fe_index E)"
    and "\<forall>m bs. fe_to_bytes E m = Inr bs \<longrightarrow> fe_from_bytes E bs = Inr m" and "policy_wf (fe_ext E) pol"
    and "fe_to_bytes E \<lparr>sm_policy = policy_to_repr pol, sm_trailers = fse_trailers e\<rparr> = Inr bs"
    and "key_dir E k \<in> set (fs_dirs (fss_fs s))" and "fse_meta_path e = join_path (key_dir E k) (vh @ META_SUFFIX)"
    and "fs_lookup (fss_fs s) (join_path (key_dir E k) (vh @ BODY_SUFFIX)) = None"
  shows "\<exists>e1 s'. fs_refresh_policy E e pol s = (Inr (), e1, s') \<and>
     (\<exists>e2 \<in> set (fst (fs_get E s' k)). fse_policy e2 = pol \<and> fst (fs_entry_open E e2 s') = Inl not_found)"
proof -
  let ?d = "key_dir E k" and ?F = "fe_fault E" and ?m = "fs_lookup (fss_fs s)" and ?ds = "fs_dirs (fss_fs s)"
  let ?q = "temp_sibling (fse_meta_path e) (fss_temp s)" and ?p = "fse_meta_path e"
  have par: "parent ?q = ?d" "parent ?p = ?d" by (simp_all add: assms(7) temp_sibling_def parent_def join_path_def)
  obtain f1 where f1: "fs_write ?F ?q bs (fss_fs s) = (Inr (), f1)" "holds_files f1 (?m(?q := Some bs)) ?ds"
    using fs_call_effects(2) [OF assms(1), of "fss_fs s" ?m ?ds ?q bs] par(1) assms(6) by (auto simp: holds_files_def)
  obtain f2 where f2: "fs_rename ?F ?q ?p f1 = (Inr (), f2)" "holds_files f2 (?m(?q := None, ?p := Some bs)) ?ds"
    using fs_call_effects(3) [OF assms(1) f1(2), of ?q bs ?p] par(2) assms(6) by auto
  let ?s = "s\<lparr>fss_temp := fss_temp s + 1, fss_fs := f2\<rparr>"
  have r: "fs_refresh_policy E e pol s = (Inr (), e\<lparr>fse_policy := pol\<rparr>, ?s)"
    using f1(1) f2(1) assms(5) by (simp add: fs_refresh_policy_def fetch_temp_def on_fs_def)
  let ?e2 = "\<lparr>fse_meta_path = ?p, fse_body_path = join_path ?d (vh @ BODY_SUFFIX), fse_policy = pol, fse_trailers = fse_trailers e\<rparr>"
  have "fe_from_bytes E bs = Inr \<lparr>sm_policy = policy_to_repr pol, sm_trailers = fse_trailers e\<rparr>"
    using assms(3,5) by blast
  then have "entry_at E k f2 ?p = Some ?e2"
    using f2(2) assms(7) policy_wf_repr [OF assms(4)] by (simp add: entry_at_def holds_files_def)
  then have "?e2 \<in> set (fst (fs_get E ?s k))"
    unfolding fs_get_quiet(1) [OF assms(1,2)] using par(2) f2(2) assms(6) by (auto simp: holds_files_def)
  moreover have "fs_lookup f2 (fse_body_path ?e2) = None"
    using f2(2) assms(7,8) by (auto simp: holds_files_def BODY_SUFFIX_def META_SUFFIX_def)
  then have "fst (fs_entry_open E ?e2 ?s) = Inl not_found"
    by (simp add: fs_entry_open_def on_fs_def fs_metadata_len_def fs_call_quiet [OF assms(1)])
  ultimately show ?thesis
    using r by (intro exI [of _ "e\<lparr>fse_policy := pol\<rparr>"] exI [of _ ?s] conjI bexI [of _ ?e2]) simp_all
qed

end
