(* ===== verification/Fs_History.thy ===== *)
theory Fs_History
  imports Fs_Properties
begin

section \<open>Histories of the file-system storage\<close>

text \<open>
  What the storage holds after any interleaving of its operations, with calls that fail,
  evictions, abandoned puts, and crashes followed by a restart. The steps run the operations
  of \<open>Fs\<close>; beside the state they keep the puts that are in flight, each with the number in
  its temporary names, and for each \<open>.meta\<close> path what was last committed there.
\<close>

record ('h, 'i, 'wr) fs_conf =
  fc_state :: "'i fs_state"
  fc_handles :: "(u64 \<times> ('h, 'wr) fs_put_handle) list"
  fc_futures :: "(u64 \<times> ('h, 'wr) fs_future) list"
  fc_latest :: "path \<Rightarrow> ('h cache_policy \<times> 'h option) option"

text \<open>
  One step. A commit is a finalize whose last poll succeeds, or a refresh that succeeds. The
  counter of temporary names is taken not to overflow: a process makes fewer than \<open>2\<^sup>6\<^sup>4\<close> of
  them. A restart finds the files as they are and none of the puts.
\<close>

inductive fs_step ::
  "('h, 'i, 'd, 'wr, 'r, 'b) fs_env \<Rightarrow> ('h, 'i, 'wr) fs_conf \<Rightarrow> ('h, 'i, 'wr) fs_conf \<Rightarrow> bool" for E where
  put: "fs_put E (fc_state c) k pol = (Inr w, s') \<Longrightarrow> policy_wf (fe_ext E) pol \<Longrightarrow> fss_temp (fc_state c) \<noteq> - 1 \<Longrightarrow>
    fs_step E c (c\<lparr>fc_state := s', fc_handles := (fss_temp (fc_state c), w) # fc_handles c\<rparr>)"
| put_failed: "fs_put E (fc_state c) k pol = (Inl e, s') \<Longrightarrow> fss_temp (fc_state c) \<noteq> - 1 \<Longrightarrow>
    fs_step E c (c\<lparr>fc_state := s'\<rparr>)"
| write_chunk: "fc_handles c = xs @ (n, w) # ys \<Longrightarrow> fs_poll_write E w buf = (r, w') \<Longrightarrow>
    fs_step E c (c\<lparr>fc_handles := xs @ (n, w') # ys\<rparr>)"
| drop: "fc_handles c = xs @ (n, w) # ys \<Longrightarrow>
    fs_step E c (c\<lparr>fc_state := fs_drop E w (fc_state c), fc_handles := xs @ ys\<rparr>)"
| finalize: "fc_handles c = xs @ (n, w) # ys \<Longrightarrow>
    fs_step E c (c\<lparr>fc_handles := xs @ ys, fc_futures := (n, fs_finalize w tr) # fc_futures c\<rparr>)"
| poll: "fc_futures c = xs @ (n, f) # ys \<Longrightarrow> fs_poll_finalize E f (fc_state c) = (r, f', s') \<Longrightarrow>
    fs_step E c (c\<lparr>fc_state := s', fc_futures := xs @ (n, f') # ys,
      fc_latest := (if ff_stage f = RenamingMeta \<and> r = Ready (Inr ())
        then (fc_latest c)(fph_meta_final (ff_handle f) \<mapsto> (fph_policy (ff_handle f), ff_trailers f))
        else fc_latest c)\<rparr>)"
| cancel: "fc_futures c = xs @ (n, f) # ys \<Longrightarrow>
    fs_step E c (c\<lparr>fc_state := fs_drop E (ff_handle f) (fc_state c), fc_futures := xs @ ys\<rparr>)"
| get: "fs_step E c (c\<lparr>fc_state := snd (fs_get E (fc_state c) k)\<rparr>)"
| open_entry: "fs_step E c (c\<lparr>fc_state := snd (fs_entry_open E e (fc_state c))\<rparr>)"
| refresh: "meta_stem (fse_meta_path e) \<noteq> None \<Longrightarrow> policy_wf (fe_ext E) pol \<Longrightarrow> fss_temp (fc_state c) \<noteq> - 1 \<Longrightarrow>
    fs_refresh_policy E e pol (fc_state c) = (r, e', s') \<Longrightarrow>
    fs_step E c (c\<lparr>fc_state := s', fc_latest := (if r = Inr ()
      then (fc_latest c)(fse_meta_path e \<mapsto> (pol, fse_trailers e)) else fc_latest c)\<rparr>)"
| invalidate: "fs_step E c (c\<lparr>fc_state := fs_invalidate E (fc_state c) k\<rparr>)"
| pending_tasks: "fs_step E c (c\<lparr>fc_state := fs_run_pending_tasks E (fc_state c)\<rparr>)"
| rebuild: "fs_step E c (c\<lparr>fc_state := fs_rebuild E config (fc_state c)\<rparr>)"
| restart: "fs_step E c (c\<lparr>fc_state := snd (fs_new E (fss_fs (fc_state c)) 0), fc_handles := [], fc_futures := []\<rparr>)"

subsection \<open>Which files an operation can write\<close>

text \<open>Outside the paths \<open>P\<close> files stay as they are or are removed.\<close>

definition keeps :: "path set \<Rightarrow> fsys \<Rightarrow> fsys \<Rightarrow> bool" where
  "keeps P f g \<longleftrightarrow> (\<forall>p. p \<notin> P \<longrightarrow> fs_lookup g p = fs_lookup f p \<or> fs_lookup g p = None)"

definition touches :: "path set \<Rightarrow> 'i fs_state \<Rightarrow> 'i fs_state \<Rightarrow> bool" where
  "touches P s t \<longleftrightarrow> keeps P (fss_fs s) (fss_fs t) \<and> fss_temp t = fss_temp s"

lemma keeps_trans: "keeps P f g \<Longrightarrow> keeps Q g h \<Longrightarrow> keeps (P \<union> Q) f h"
  unfolding keeps_def by (metis UnCI)

lemma keeps_refl [simp]: "keeps P f f" by (simp add: keeps_def)

lemma keeps_mono: "keeps P f g \<Longrightarrow> P \<subseteq> Q \<Longrightarrow> keeps Q f g" by (auto simp: keeps_def)

lemma keeps_remove_dir_all: "keeps {} f (snd (fs_remove_dir_all F p f))"
proof -
  have "map_of (filter (\<lambda>(q, b). P q) xs) q = (if P q then map_of xs q else None)" for P q and xs :: "(path \<times> bytes) list"
    by (induction xs) auto
  then show ?thesis
    by (auto simp: keeps_def fs_remove_dir_all_def fs_call_def fs_lookup_def Let_def split: option.split)
qed

lemma keeps_calls [simp]:
  "keeps {} f (snd (fs_open F p f))" "keeps {} f (snd (fs_read F p f))" "keeps {} f (snd (fs_metadata_len F p f))"
  "keeps {} f (snd (fs_read_dir_paths F p f))" "keeps {} f (snd (fs_create_dir_all F p f))"
  "keeps {} f (fs_remove_file F p f)" "keeps {p} f (snd (fs_create F p f))"
  "keeps {p} f (snd (fs_write F p bs f))" "keeps {p} f (snd (fs_close F p bs f))" "keeps {q} f (snd (fs_rename F p q f))"
  by (auto simp: keeps_def fs_open_def fs_read_def fs_metadata_len_def fs_read_dir_paths_def fs_create_dir_all_def
      fs_remove_file_def fs_create_def fs_write_def fs_close_def fs_rename_def fs_call_def Let_def split: option.splits)

lemma touches_refl [simp]: "touches P s s" by (simp add: touches_def)

lemma touches_trans: "touches P s t \<Longrightarrow> touches Q t u \<Longrightarrow> touches (P \<union> Q) s u"
  by (auto simp: touches_def intro: keeps_trans)

lemma touches_mono: "touches P s t \<Longrightarrow> P \<subseteq> Q \<Longrightarrow> touches Q s t"
  by (auto simp: touches_def intro: keeps_mono)

lemma touches_none_trans: "touches {} s t \<Longrightarrow> touches {} t u \<Longrightarrow> touches {} s u"
  using touches_trans [of "{}" s t "{}" u] by simp

lemma touches_foldl: "(\<And>s x. touches {} s (g s x)) \<Longrightarrow> touches {} s (foldl g s xs)"
proof (induction xs arbitrary: s)
  case (Cons x xs)
  from touches_none_trans [OF Cons.prems Cons.IH [OF Cons.prems]] show ?case by simp
qed simp

lemma touches_on_fs:
  assumes "on_fs op s = (r, t)" and "\<And>f. keeps P f (snd (op f))"
  shows "touches P s t"
  using assms(2) [of "fss_fs s"] assms(1) by (auto simp: touches_def on_fs_def split: prod.splits)

lemma keeps_evict: "keeps {} f (foldl (evict_variant E) f xs)"
proof (induction xs arbitrary: f)
  case (Cons x xs)
  have "keeps {} f (evict_variant E f x)"
    using keeps_trans [OF keeps_calls(6) keeps_calls(6), of f] by (auto simp: evict_variant_def Let_def split_def)
  from keeps_trans [OF this Cons.IH] show ?case by simp
qed simp

lemma touches_on_index: "touches {} s (on_index E op s)"
  by (simp add: touches_def on_index_def keeps_evict split: prod.split)

text \<open>The operations that write no file of a put.\<close>

lemma touches_get_path: "touches {} (snd acc) (snd (fs_get_path E k acc p))"
proof -
  obtain es t where acc: "acc = (es, t)" by (cases acc)
  obtain r u where rd: "on_fs (fs_read (fe_fault E) p) t = (r, u)" by (metis surj_pair)
  have "touches {} t u" using touches_on_fs [OF rd] by simp
  moreover from this have "touches {} t (on_index E op u)" for op
    using touches_none_trans touches_on_index by blast
  ultimately show ?thesis
    by (simp add: fs_get_path_def acc rd split: option.split sum.split)
qed

lemma touches_get: "touches {} s (snd (fs_get E s k))"
proof -
  have paths: "touches {} (snd acc) (snd (foldl (fs_get_path E k) acc ps))" for acc ps
    by (induction ps arbitrary: acc) (simp, metis foldl_Cons touches_get_path touches_none_trans)
  obtain r t where rd: "on_fs (fs_read_dir_paths (fe_fault E) (key_dir E k)) s = (r, t)" by (metis surj_pair)
  from touches_on_fs [OF rd] touches_none_trans [OF _ paths [of "([], t)"]] show ?thesis
    by (simp add: fs_get_def rd split: sum.split)
qed

lemma touches_open: "touches {} s (snd (fs_entry_open E e s))"
proof -
  obtain r t where a: "on_fs (fs_metadata_len (fe_fault E) (fse_body_path e)) s = (r, t)" by (metis surj_pair)
  obtain r' u where b: "on_fs (fs_open (fe_fault E) (fse_body_path e)) t = (r', u)" by (metis surj_pair)
  from touches_on_fs [OF a, of "{}"] touches_on_fs [OF b, of "{}"] show ?thesis
    by (auto simp: fs_entry_open_def a b split: sum.split intro: touches_none_trans)
qed

lemma touches_invalidate: "touches {} s (fs_invalidate E s k)"
proof -
  obtain r t where a: "on_fs (fs_read_dir_paths (fe_fault E) (key_dir E k)) s = (r, t)" by (metis surj_pair)
  have "touches {} u (case meta_stem p of None \<Rightarrow> u | Some vh \<Rightarrow> on_index E (op vh) u)" for u p op
    by (simp add: touches_on_index split: option.split)
  note idx = touches_foldl [of "\<lambda>u p. case meta_stem p of None \<Rightarrow> u | Some vh \<Rightarrow> on_index E (_ vh) u", OF this]
  have rm: "touches {} s (snd (on_fs (fs_remove_dir_all (fe_fault E) d) u))" if "touches {} s u" for u d
    using touches_none_trans [OF that touches_on_fs [OF prod.collapse [symmetric]]] keeps_remove_dir_all by blast
  have t: "touches {} s t" using touches_on_fs [OF a] by simp
  show ?thesis
    using rm [OF t] rm [OF touches_none_trans [OF t idx]] by (auto simp: fs_invalidate_def a split: sum.split)
qed

lemma touches_scan: "touches {} s (scan_root E s)"
proof -
  have fs: "touches {} u (u\<lparr>fss_fs := f\<rparr>)" if "keeps {} (fss_fs u) f" for u :: "'a fs_state" and f
    using that by (simp add: touches_def)
  have one: "touches {} u (scan_file E dir kh u p)" for u dir kh p
  proof (cases "meta_stem p")
    case (Some vh)
    let ?m = "fs_metadata_len (fe_fault E) (join_path dir (vh @ BODY_SUFFIX)) (fss_fs u)"
    have "touches {} u (u\<lparr>fss_fs := snd ?m\<rparr>)" by (rule fs) simp
    moreover from this have "touches {} u (on_index E op (u\<lparr>fss_fs := snd ?m\<rparr>))" for op
      using touches_none_trans touches_on_index by blast
    ultimately show ?thesis by (cases ?m) (simp add: scan_file_def Some split: sum.split)
  qed (simp add: scan_file_def)
  have dir: "touches {} u (scan_key_dir E u d)" for u d
  proof (cases "file_name d")
    case (Some kh)
    let ?m = "fs_read_dir_paths (fe_fault E) d (fss_fs u)"
    have "touches {} u (u\<lparr>fss_fs := snd ?m\<rparr>)" by (rule fs) simp
    moreover from this have "touches {} u (foldl (scan_file E d kh) (u\<lparr>fss_fs := snd ?m\<rparr>) ps)" for ps
      using touches_none_trans touches_foldl [of "scan_file E d kh", OF one] by blast
    ultimately show ?thesis by (cases ?m) (simp add: scan_key_dir_def Some split: sum.split)
  qed (simp add: scan_key_dir_def)
  let ?m = "fs_read_dir_paths (fe_fault E) (fe_root E) (fss_fs s)"
  have "touches {} s (s\<lparr>fss_fs := snd ?m\<rparr>)" by (rule fs) simp
  moreover from this have "touches {} s (on_index E op (foldl (scan_key_dir E) (s\<lparr>fss_fs := snd ?m\<rparr>) ps))" for op ps
    using touches_none_trans [OF touches_none_trans [OF _ touches_foldl [of "scan_key_dir E", OF dir]] touches_on_index]
    by blast
  ultimately show ?thesis by (cases ?m) (simp add: scan_root_def split: sum.split)
qed

lemma touches_drop: "touches {} s (fs_drop E w s)"
  by (simp add: fs_drop_def touches_def)

subsection \<open>Temporary names\<close>

definition tmp_file :: "u64 \<Rightarrow> path \<Rightarrow> bool" where
  "tmp_file n p \<longleftrightarrow> (\<exists>dir x. p = join_path dir (x @ ''.tmp.'' @ u64_to_string n))"

lemma tmp_fileI [intro, simp]: "tmp_file n (join_path dir (x @ ''.tmp.'' @ u64_to_string n))"
  unfolding tmp_file_def by blast

lemma u64_to_string_digits: "c \<in> set (u64_to_string n) \<Longrightarrow> is_ascii_digit c"
  by (simp add: u64_to_string_def show_nat_digits)

lemma tmp_file_unique:
  assumes "tmp_file m p" and "tmp_file n p"
  shows "m = n"
proof -
  obtain x y where eq: "x @ ''.tmp.'' @ u64_to_string m = y @ ''.tmp.'' @ u64_to_string n"
    using assms by (auto simp: tmp_file_def join_path_def)
  have dot: "CHR ''.'' \<notin> set (rev (u64_to_string k))" for k
    using u64_to_string_digits [of "CHR ''.''" k] by (auto simp: is_ascii_digit_def)
  have "rev (u64_to_string m) @ CHR ''.'' # rev ''.tmp'' @ rev x = rev (u64_to_string n) @ CHR ''.'' # rev ''.tmp'' @ rev y"
    using arg_cong [OF eq, of rev] by simp
  from append_sep_inject [OF dot dot this] have "u64_to_string m = u64_to_string n" by simp
  then show ?thesis by (metis parse_u64_to_string option.inject)
qed

lemma tmp_file_suffix: "tmp_file n (join_path dir (x @ y @ ''.tmp.'' @ u64_to_string n))"
  unfolding tmp_file_def using append_assoc by metis

lemma tmp_file_stem: "tmp_file n p \<Longrightarrow> meta_stem p = None"
  unfolding tmp_file_def by (metis meta_stem_tmp)

lemma tmp_file_not_body: "\<not> tmp_file n (join_path dir (vh @ BODY_SUFFIX))"
proof
  assume "tmp_file n (join_path dir (vh @ BODY_SUFFIX))"
  then obtain x where "vh @ BODY_SUFFIX = x @ ''.tmp.'' @ u64_to_string n"
    by (auto simp: tmp_file_def join_path_def)
  then have "last (vh @ BODY_SUFFIX) = last (x @ ''.tmp.'' @ u64_to_string n)" by simp
  then have "last (u64_to_string n) = CHR ''y''" by (simp add: BODY_SUFFIX_def u64_to_string_def)
  moreover have "\<not> is_ascii_digit CHR ''y''" by code_simp
  moreover have "last (u64_to_string n) \<in> set (u64_to_string n)" by (simp add: u64_to_string_def)
  ultimately show False using u64_to_string_digits by metis
qed

text \<open>The paths of a put with the number \<open>n\<close>.\<close>

definition handle_token :: "u64 \<Rightarrow> ('h, 'wr) fs_put_handle \<Rightarrow> bool" where
  "handle_token n w \<longleftrightarrow> tmp_file n (fph_body_tmp w) \<and> tmp_file n (fph_meta_tmp w) \<and>
     fph_body_tmp w \<noteq> fph_meta_tmp w \<and> meta_stem (fph_meta_final w) \<noteq> None \<and>
     meta_stem (fph_body_final w) = None \<and> (\<forall>m. \<not> tmp_file m (fph_body_final w))"

lemma handle_token_paths:
  assumes "handle_token n w"
  shows "meta_stem (fph_body_tmp w) = None" "meta_stem (fph_body_final w) = None" "meta_stem (fph_meta_tmp w) = None"
    "tmp_file m p \<Longrightarrow> m \<noteq> n \<Longrightarrow> p \<notin> {fph_body_tmp w, fph_meta_tmp w}" "tmp_file m p \<Longrightarrow> p \<noteq> fph_body_final w"
    "tmp_file m p \<Longrightarrow> p \<noteq> fph_meta_final w"
  using assms tmp_file_stem tmp_file_unique unfolding handle_token_def by auto

lemma fs_put_effect:
  assumes "fs_put E s k pol = (r, s')"
  shows "(\<exists>p. tmp_file (fss_temp s) p \<and> keeps {p} (fss_fs s) (fss_fs s')) \<and>
     (fss_temp s' = fss_temp s \<or> fss_temp s' = fss_temp s + 1) \<and>
     (\<forall>w. r = Inr w \<longrightarrow> handle_token (fss_temp s) w \<and> fph_policy w = pol \<and> fss_temp s' = fss_temp s + 1)"
proof -
  let ?d = "key_dir E k" and ?n = "fss_temp s"
  let ?p = "join_path ?d (variant_hash E pol @ BODY_SUFFIX @ ''.tmp.'' @ u64_to_string ?n)"
  obtain r1 s1 where a: "on_fs (fs_create_dir_all (fe_fault E) ?d) s = (r1, s1)" by (metis surj_pair)
  obtain r2 s2 where b: "on_fs (fs_create (fe_fault E) ?p) (s1\<lparr>fss_temp := ?n + 1\<rparr>) = (r2, s2)" by (metis surj_pair)
  have t1: "touches {} s s1" using touches_on_fs [OF a] by simp
  have t2: "touches {?p} (s1\<lparr>fss_temp := ?n + 1\<rparr>) s2" using touches_on_fs [OF b] by simp
  have k: "keeps {?p} (fss_fs s) (fss_fs s1)" "keeps {?p} (fss_fs s) (fss_fs s2)"
    using t1 t2 keeps_trans [of "{}" "fss_fs s" "fss_fs s1" "{?p}"] by (auto simp: touches_def intro: keeps_mono)
  have n: "fss_temp s1 = ?n" using t1 by (simp add: touches_def)
  have "BODY_SUFFIX @ x \<noteq> META_SUFFIX @ x" for x by (simp add: BODY_SUFFIX_def META_SUFFIX_def)
  then have w: "\<forall>w. r = Inr w \<longrightarrow> handle_token ?n w \<and> fph_policy w = pol"
    using assms a b by (auto simp: fs_put_def fetch_temp_def handle_token_def tmp_file_suffix [simplified] tmp_file_not_body n Let_def split: sum.splits)
  have s': "s' = s1 \<and> fss_temp s1 = ?n \<and> (\<exists>e. r = Inl e) \<or> s' = s2 \<and> fss_temp s2 = ?n + 1"
    using assms t2 a b by (auto simp: fs_put_def fetch_temp_def touches_def n Let_def split: sum.splits)
  have "tmp_file ?n ?p" by (rule tmp_file_suffix)
  then have "\<exists>p. tmp_file ?n p \<and> keeps {p} (fss_fs s) (fss_fs s')" using k s' by blast
  with s' w show ?thesis by auto
qed

lemma fs_rename_effect:
  assumes "fs_rename F p q f = (r, g)"
  shows "case r of Inl _ \<Rightarrow> keeps {} f g
     | Inr _ \<Rightarrow> keeps {q} f g \<and> (\<exists>bs. fs_lookup f p = Some bs \<and> fs_lookup g q = Some bs)"
  using assms by (auto simp: fs_rename_def fs_call_def keeps_def Let_def split: option.splits if_splits)

lemma fs_write_effect:
  assumes "fs_write F p bs f = (Inr u, g)"
  shows "fs_lookup g p = Some bs"
  using assms by (auto simp: fs_write_def fs_call_def Let_def split: option.splits if_splits)

text \<open>The bytes of a policy and trailers in a \<open>.meta\<close> file.\<close>

definition encodes ::
  "('h, 'i, 'd, 'wr, 'r, 'b) fs_env \<Rightarrow> 'h cache_policy \<Rightarrow> 'h option \<Rightarrow> bytes \<Rightarrow> bool" where
  "encodes E pol tr bs \<longleftrightarrow>
     policy_wf (fe_ext E) pol \<and> fe_to_bytes E \<lparr>sm_policy = policy_to_repr pol, sm_trailers = tr\<rparr> = Inr bs"

lemma fs_refresh_effect:
  assumes "fs_refresh_policy E e pol s = (r, e', s')" and "policy_wf (fe_ext E) pol"
  shows "\<exists>q. tmp_file (fss_temp s) q \<and> (fss_temp s' = fss_temp s \<or> fss_temp s' = fss_temp s + 1) \<and>
     (case r of Inl _ \<Rightarrow> keeps {q} (fss_fs s) (fss_fs s')
      | Inr _ \<Rightarrow> keeps {q, fse_meta_path e} (fss_fs s) (fss_fs s') \<and>
          (\<exists>bs. fs_lookup (fss_fs s') (fse_meta_path e) = Some bs \<and> encodes E pol (fse_trailers e) bs))"
proof -
  let ?q = "temp_sibling (fse_meta_path e) (fss_temp s)" and ?F = "fe_fault E" and ?p = "fse_meta_path e"
  let ?m = "fe_to_bytes E \<lparr>sm_policy = policy_to_repr pol, sm_trailers = fse_trailers e\<rparr>"
  have q: "tmp_file (fss_temp s) ?q" unfolding temp_sibling_def tmp_file_def join_path_def by blast
  show ?thesis
  proof (cases ?m)
    case (Inl err)
    then show ?thesis using assms(1) q by (auto simp: fs_refresh_policy_def)
  next
    case (Inr bs)
    obtain x f1 where w: "fs_write ?F ?q bs (fss_fs s) = (x, f1)" by (metis surj_pair)
    obtain y f2 where n: "fs_rename ?F ?q ?p f1 = (y, f2)" by (metis surj_pair)
    have k1: "keeps {?q} (fss_fs s) f1" using keeps_calls(8) [where f = "fss_fs s"] w by (metis snd_conv)
    note k2 = fs_rename_effect [OF n]
    have k12: "keeps {?q} (fss_fs s) f2" if "keeps {} f1 f2" using keeps_trans [OF k1 that] by simp
    have k12': "keeps {?q, ?p} (fss_fs s) f2" if "keeps {?p} f1 f2"
      using keeps_trans [OF k1 that] by (simp add: insert_commute)
    show ?thesis
    proof (cases x)
      case (Inl err)
      then show ?thesis using assms(1) q k1 w \<open>?m = Inr bs\<close> by (auto simp: fs_refresh_policy_def fetch_temp_def on_fs_def)
    next
      case (Inr u)
      then have "fs_lookup f1 ?q = Some bs" using fs_write_effect w by blast
      then show ?thesis
        using assms q k2 k12 k12' w n Inr \<open>?m = Inr bs\<close>
        by (cases y) (auto simp: fs_refresh_policy_def fetch_temp_def on_fs_def encodes_def)
    qed
  qed
qed

text \<open>The file a poll of a finalize can write.\<close>

definition poll_writes :: "('h, 'wr) fs_future \<Rightarrow> unit io_result poll \<Rightarrow> path set" where
  "poll_writes fut r =
     (case ff_stage fut of
        Closing \<Rightarrow> {fph_body_tmp (ff_handle fut)}
      | RenamingBody \<Rightarrow> {fph_body_final (ff_handle fut)}
      | WritingMeta \<Rightarrow> {fph_meta_tmp (ff_handle fut)}
      | RenamingMeta \<Rightarrow> (if r = Ready (Inr ()) then {fph_meta_final (ff_handle fut)} else {})
      | Finalized \<Rightarrow> {})"

lemma fs_await_effect:
  assumes "fs_await E nxt fut rs = (r, fut', s')" and "touches P s (snd rs)"
  shows "touches P s s' \<and> (ff_stage fut' = Finalized \<or> ff_stage fut' = nxt \<and> (\<exists>u. rs = (Inr u, s'))) \<and>
     ff_handle fut' = ff_handle fut \<and> ff_trailers fut' = ff_trailers fut"
proof -
  obtain x t where rs: "rs = (x, t)" by (cases rs)
  then have t: "touches P s t" using assms(2) by simp
  then have "touches P s (fs_drop E w t)" for w using touches_trans [OF t touches_drop] by simp
  then show ?thesis using assms(1) t by (cases x) (auto simp: fs_await_def rs)
qed

text \<open>What a poll keeps of the future, and what it leaves in the two \<open>.meta\<close> files of the put.\<close>

definition same_put :: "('h, 'wr) fs_future \<Rightarrow> ('h, 'wr) fs_future \<Rightarrow> bool" where
  "same_put f g \<longleftrightarrow> (\<exists>b. ff_handle g = (ff_handle f)\<lparr>fph_committed := b\<rparr>) \<and> ff_trailers g = ff_trailers f"

definition meta_written :: "('h, 'i, 'd, 'wr, 'r, 'b) fs_env \<Rightarrow> ('h, 'wr) fs_future \<Rightarrow> fsys \<Rightarrow> bool" where
  "meta_written E fut f \<longleftrightarrow> (\<forall>bs. fs_lookup f (fph_meta_tmp (ff_handle fut)) = Some bs \<longrightarrow>
     fe_to_bytes E \<lparr>sm_policy = policy_to_repr (fph_policy (ff_handle fut)), sm_trailers = ff_trailers fut\<rparr> = Inr bs)"

definition poll_effect ::
  "('h, 'i, 'd, 'wr, 'r, 'b) fs_env \<Rightarrow> ('h, 'wr) fs_future \<Rightarrow> 'i fs_state \<Rightarrow>
   unit io_result poll \<Rightarrow> ('h, 'wr) fs_future \<Rightarrow> 'i fs_state \<Rightarrow> bool" where
  "poll_effect E fut s r fut' s' \<longleftrightarrow> touches (poll_writes fut r) s s' \<and> same_put fut fut' \<and>
     (ff_stage fut' = RenamingMeta \<longrightarrow> meta_written E fut (fss_fs s')) \<and>
     (ff_stage fut = RenamingMeta \<longrightarrow> r = Ready (Inr ()) \<longrightarrow>
        fs_lookup (fss_fs s') (fph_meta_final (ff_handle fut)) \<in> {None, fs_lookup (fss_fs s) (fph_meta_tmp (ff_handle fut))})"

lemma same_putI [intro]: "ff_handle g = ff_handle f \<Longrightarrow> ff_trailers g = ff_trailers f \<Longrightarrow> same_put f g"
  unfolding same_put_def by (auto intro: exI [of _ "fph_committed (ff_handle f)"])

lemma touches_call: "(\<And>f. keeps P f (snd (op f))) \<Longrightarrow> touches P s (snd (on_fs op s))"
  using touches_on_fs [OF prod.collapse [symmetric]] .

lemma fs_poll_commit:
  assumes "fs_poll_finalize E fut s = (r, fut', s')" and "ff_stage fut = RenamingMeta"
  shows "poll_effect E fut s r fut' s'"
proof -
  let ?w = "ff_handle fut" and ?F = "fe_fault E"
  obtain x f where rn: "fs_rename ?F (fph_meta_tmp ?w) (fph_meta_final ?w) (fss_fs s) = (x, f)" by (metis surj_pair)
  note eff = fs_rename_effect [OF rn]
  show ?thesis
  proof (cases x)
    case (Inl e)
    then have aw: "fs_await E Finalized fut (Inl e, s\<lparr>fss_fs := f\<rparr>) = (r, fut', s')"
      using assms rn by (simp add: fs_poll_finalize_def on_fs_def Let_def)
    have "touches {} s (snd (Inl e :: unit io_result, s\<lparr>fss_fs := f\<rparr>))" using eff Inl by (simp add: touches_def)
    moreover have "r \<noteq> Ready (Inr ())" using aw by (auto simp: fs_await_def)
    ultimately show ?thesis
      using fs_await_effect [OF aw] assms(2) by (auto simp: poll_effect_def poll_writes_def)
  next
    case (Inr u)
    let ?s = "s\<lparr>fss_fs := f\<rparr>" and ?op = "\<lambda>i. ix_insert (fe_index E) i (fph_variant_id ?w) (fph_written ?w)"
    have p: "r = Ready (Inr ())" "ff_stage fut' = Finalized" "same_put fut fut'" and s': "s' = on_index E ?op ?s"
      using assms Inr rn by (auto simp: fs_poll_finalize_def on_fs_def Let_def same_put_def)
    have ix: "touches {} ?s s'" unfolding s' by (rule touches_on_index)
    have "touches {fph_meta_final ?w} s ?s" using eff Inr by (simp add: touches_def)
    from touches_trans [OF this ix] have "touches {fph_meta_final ?w} s s'" by simp
    moreover have "fs_lookup (fss_fs s') (fph_meta_final ?w) \<in> {None, fs_lookup (fss_fs s) (fph_meta_tmp ?w)}"
      using ix eff Inr by (auto simp: touches_def keeps_def dest: spec [of _ "fph_meta_final ?w"])
    ultimately show ?thesis using p assms(2) by (simp add: poll_effect_def poll_writes_def)
  qed
qed

lemma fs_poll_effect:
  assumes "fs_poll_finalize E fut s = (r, fut', s')"
  shows "poll_effect E fut s r fut' s'"
proof (cases "ff_stage fut")
  case Closing
  then have "fs_await E RenamingBody fut (on_fs (fs_close (fe_fault E) (fph_body_tmp (ff_handle fut))
      (fw_data (fph_writer (ff_handle fut)))) s) = (r, fut', s')"
    using assms by (simp add: fs_poll_finalize_def Let_def)
  from fs_await_effect [OF this touches_call [OF keeps_calls(9)]] Closing show ?thesis
    by (auto simp: poll_effect_def poll_writes_def)
next
  case RenamingBody
  then have "fs_await E WritingMeta fut (on_fs (fs_rename (fe_fault E) (fph_body_tmp (ff_handle fut))
      (fph_body_final (ff_handle fut))) s) = (r, fut', s')"
    using assms by (simp add: fs_poll_finalize_def Let_def)
  from fs_await_effect [OF this touches_call [OF keeps_calls(10)]] RenamingBody show ?thesis
    by (auto simp: poll_effect_def poll_writes_def)
next
  case WritingMeta
  let ?m = "fe_to_bytes E \<lparr>sm_policy = policy_to_repr (fph_policy (ff_handle fut)), sm_trailers = ff_trailers fut\<rparr>"
  let ?wr = "\<lambda>bs. on_fs (fs_write (fe_fault E) (fph_meta_tmp (ff_handle fut)) bs) s"
  have aw: "fs_await E RenamingMeta fut (case ?m of Inl e \<Rightarrow> (Inl e, s) | Inr bs \<Rightarrow> ?wr bs) = (r, fut', s')"
    using assms WritingMeta by (cases ?m) (simp_all add: fs_poll_finalize_def Let_def)
  have t: "touches {fph_meta_tmp (ff_handle fut)} s (snd (case ?m of Inl e \<Rightarrow> (Inl e, s) | Inr bs \<Rightarrow> ?wr bs))"
    by (auto intro: touches_call split: sum.split)
  have "fs_lookup (fss_fs s') (fph_meta_tmp (ff_handle fut)) = Some bs" if "?wr bs = (Inr u, s')" for bs u
    using that fs_write_effect by (auto simp: on_fs_def split: prod.splits)
  with fs_await_effect [OF aw t] WritingMeta show ?thesis
    by (auto simp: poll_effect_def poll_writes_def meta_written_def split: sum.splits)
next
  case RenamingMeta
  with assms show ?thesis by (rule fs_poll_commit)
next
  case Finalized
  then show ?thesis using assms by (auto simp: fs_poll_finalize_def poll_effect_def poll_writes_def)
qed

subsection \<open>The invariant\<close>

definition in_flight :: "('h, 'i, 'd, 'wr, 'r, 'b) fs_env \<Rightarrow> u64 \<Rightarrow> u64 \<Rightarrow> ('h, 'wr) fs_put_handle \<Rightarrow> bool" where
  "in_flight E t n w \<longleftrightarrow> handle_token n w \<and> n < t \<and> policy_wf (fe_ext E) (fph_policy w)"

text \<open>Every \<open>.meta\<close> file holds what was last committed to it.\<close>

definition metas_ok ::
  "('h, 'i, 'd, 'wr, 'r, 'b) fs_env \<Rightarrow> (path \<Rightarrow> ('h cache_policy \<times> 'h option) option) \<Rightarrow> fsys \<Rightarrow> bool" where
  "metas_ok E latest f \<longleftrightarrow> (\<forall>p bs. meta_stem p \<noteq> None \<longrightarrow> fs_lookup f p = Some bs \<longrightarrow>
     (\<exists>pol tr. latest p = Some (pol, tr) \<and> encodes E pol tr bs))"

definition future_ok ::
  "('h, 'i, 'd, 'wr, 'r, 'b) fs_env \<Rightarrow> 'i fs_state \<Rightarrow> u64 \<times> ('h, 'wr) fs_future \<Rightarrow> bool" where
  "future_ok E s x \<longleftrightarrow> in_flight E (fss_temp s) (fst x) (ff_handle (snd x)) \<and>
     (ff_stage (snd x) = RenamingMeta \<longrightarrow> meta_written E (snd x) (fss_fs s))"

definition fs_inv :: "('h, 'i, 'd, 'wr, 'r, 'b) fs_env \<Rightarrow> ('h, 'i, 'wr) fs_conf \<Rightarrow> bool" where
  "fs_inv E c \<longleftrightarrow> metas_ok E (fc_latest c) (fss_fs (fc_state c)) \<and>
     (\<forall>x \<in> set (fc_handles c). in_flight E (fss_temp (fc_state c)) (fst x) (snd x)) \<and>
     (\<forall>x \<in> set (fc_futures c). future_ok E (fc_state c) x) \<and>
     distinct (map fst (fc_handles c) @ map fst (fc_futures c))"

lemma metas_ok_keeps: "metas_ok E l f \<Longrightarrow> keeps P f g \<Longrightarrow> (\<And>p. p \<in> P \<Longrightarrow> meta_stem p = None) \<Longrightarrow> metas_ok E l g"
  unfolding metas_ok_def keeps_def by (metis option.distinct(1))

lemma metas_ok_commit:
  assumes "metas_ok E l f" and "keeps (insert p P) f g" and "\<And>q. q \<in> P \<Longrightarrow> meta_stem q = None"
    and "\<And>bs. fs_lookup g p = Some bs \<Longrightarrow> encodes E pol tr bs"
  shows "metas_ok E (l(p \<mapsto> (pol, tr))) g"
  unfolding metas_ok_def
proof (intro allI impI)
  fix q bs
  assume q: "meta_stem q \<noteq> None" "fs_lookup g q = Some bs"
  show "\<exists>pol' tr'. (l(p \<mapsto> (pol, tr))) q = Some (pol', tr') \<and> encodes E pol' tr' bs"
  proof (cases "q = p")
    case False
    then have "fs_lookup f q = Some bs"
      using q assms(2,3) unfolding keeps_def by (metis insert_iff option.distinct(1))
    then show ?thesis using False q(1) assms(1) by (simp add: metas_ok_def)
  qed (use q assms(4) in simp)
qed

lemma meta_written_keeps: "meta_written E x f \<Longrightarrow> keeps P f g \<Longrightarrow> fph_meta_tmp (ff_handle x) \<notin> P \<Longrightarrow> meta_written E x g"
  unfolding meta_written_def keeps_def by (metis option.distinct(1))

lemma in_flight_mono: "in_flight E t n w \<Longrightarrow> t \<le> t' \<Longrightarrow> in_flight E t' n w"
  by (auto simp: in_flight_def)

lemma future_ok_keeps:
  "future_ok E s x \<Longrightarrow> keeps P (fss_fs s) (fss_fs t) \<Longrightarrow> fss_temp s \<le> fss_temp t \<Longrightarrow>
   fph_meta_tmp (ff_handle (snd x)) \<notin> P \<Longrightarrow> future_ok E t x"
  by (auto simp: future_ok_def intro: in_flight_mono meta_written_keeps)

text \<open>A step that writes neither a \<open>.meta\<close> file nor one that a put is about to rename.\<close>

lemma fs_inv_frame:
  assumes "fs_inv E c" and "keeps P (fss_fs (fc_state c)) (fss_fs s')" and "fss_temp (fc_state c) \<le> fss_temp s'"
    and "\<And>p. p \<in> P \<Longrightarrow> meta_stem p = None"
    and "\<And>x. x \<in> set (fc_futures c) \<Longrightarrow> fph_meta_tmp (ff_handle (snd x)) \<notin> P"
  shows "fs_inv E (c\<lparr>fc_state := s'\<rparr>)"
  using assms by (auto simp: fs_inv_def intro: metas_ok_keeps in_flight_mono future_ok_keeps)

lemma fs_inv_touches: "fs_inv E c \<Longrightarrow> touches {} (fc_state c) s' \<Longrightarrow> fs_inv E (c\<lparr>fc_state := s'\<rparr>)"
  by (rule fs_inv_frame [where P = "{}"]) (simp_all add: touches_def)

lemma next_temp: "n \<noteq> - 1 \<Longrightarrow> n < n + 1" for n :: u64
proof -
  assume "n \<noteq> - 1"
  then have "1 + n \<noteq> 0" by (metis add.commute add_eq_0_iff)
  then have "unat (n + 1) = Suc (unat n)" using unatSuc [of n] by (simp add: add.commute)
  then show "n < n + 1" by (simp add: word_less_nat_alt)
qed

lemma fresh_tmp:
  assumes "fs_inv E c" and "tmp_file (fss_temp (fc_state c)) p" and "x \<in> set (fc_futures c)"
  shows "fph_meta_tmp (ff_handle (snd x)) \<noteq> p"
proof -
  have "tmp_file (fst x) (fph_meta_tmp (ff_handle (snd x)))" "fst x < fss_temp (fc_state c)"
    using assms(1,3) by (auto simp: fs_inv_def future_ok_def in_flight_def handle_token_def)
  then show ?thesis using tmp_file_unique [OF assms(2)] less_irrefl by metis
qed

lemma fresh_step:
  assumes "fs_inv E c" and "tmp_file (fss_temp (fc_state c)) p" and "keeps {p} (fss_fs (fc_state c)) (fss_fs s')"
    and "fss_temp (fc_state c) \<noteq> - 1" and "fss_temp s' = fss_temp (fc_state c) \<or> fss_temp s' = fss_temp (fc_state c) + 1"
  shows "fs_inv E (c\<lparr>fc_state := s'\<rparr>)"
  using assms next_temp [OF assms(4)] tmp_file_stem fresh_tmp [OF assms(1,2)]
  by (intro fs_inv_frame [OF assms(1,3)]) auto

lemma fs_inv_put:
  assumes "fs_inv E c" and "fs_put E (fc_state c) k pol = (r, s')" and "fss_temp (fc_state c) \<noteq> - 1"
  shows "fs_inv E (c\<lparr>fc_state := s'\<rparr>)"
    and "r = Inr w \<Longrightarrow> policy_wf (fe_ext E) pol \<Longrightarrow>
      fs_inv E (c\<lparr>fc_state := s', fc_handles := (fss_temp (fc_state c), w) # fc_handles c\<rparr>)"
proof -
  note eff = fs_put_effect [OF assms(2)]
  then show inv: "fs_inv E (c\<lparr>fc_state := s'\<rparr>)" using fresh_step [OF assms(1) _ _ assms(3)] by blast
  have "fss_temp (fc_state c) \<notin> set (map fst (fc_handles c) @ map fst (fc_futures c))"
    using assms(1) by (auto simp: fs_inv_def future_ok_def in_flight_def)
  then show "fs_inv E (c\<lparr>fc_state := s', fc_handles := (fss_temp (fc_state c), w) # fc_handles c\<rparr>)"
    if "r = Inr w" "policy_wf (fe_ext E) pol"
    using inv eff that next_temp [OF assms(3)] by (auto simp: fs_inv_def in_flight_def)
qed

lemma fs_inv_refresh:
  assumes "fs_inv E c" and "fs_refresh_policy E e pol (fc_state c) = (r, e', s')" and "policy_wf (fe_ext E) pol"
    and "fss_temp (fc_state c) \<noteq> - 1" and "meta_stem (fse_meta_path e) \<noteq> None"
  shows "fs_inv E (c\<lparr>fc_state := s', fc_latest := (if r = Inr ()
      then (fc_latest c)(fse_meta_path e \<mapsto> (pol, fse_trailers e)) else fc_latest c)\<rparr>)"
proof -
  let ?p = "fse_meta_path e" and ?s = "fc_state c"
  obtain q where q: "tmp_file (fss_temp ?s) q" "fss_temp s' = fss_temp ?s \<or> fss_temp s' = fss_temp ?s + 1"
    and eff: "case r of Inl _ \<Rightarrow> keeps {q} (fss_fs ?s) (fss_fs s')
      | Inr _ \<Rightarrow> keeps {q, ?p} (fss_fs ?s) (fss_fs s') \<and>
          (\<exists>bs. fs_lookup (fss_fs s') ?p = Some bs \<and> encodes E pol (fse_trailers e) bs)"
    using fs_refresh_effect [OF assms(2,3)] by blast
  show ?thesis
  proof (cases r)
    case (Inl err)
    then show ?thesis using fresh_step [OF assms(1) q(1) _ assms(4) q(2)] eff by simp
  next
    case (Inr u)
    then obtain bs where k: "keeps {q, ?p} (fss_fs ?s) (fss_fs s')"
      and bs: "fs_lookup (fss_fs s') ?p = Some bs" "encodes E pol (fse_trailers e) bs" using eff by auto
    have tmp: "fph_meta_tmp (ff_handle (snd x)) \<notin> {q, ?p}" if "x \<in> set (fc_futures c)" for x
    proof -
      have "meta_stem (fph_meta_tmp (ff_handle (snd x))) = None"
        using assms(1) that handle_token_paths(3) by (auto simp: fs_inv_def future_ok_def in_flight_def)
      then show ?thesis using fresh_tmp [OF assms(1) q(1) that] assms(5) by auto
    qed
    have le: "fss_temp ?s \<le> fss_temp s'" using q(2) next_temp [OF assms(4)] by auto
    have "metas_ok E ((fc_latest c)(?p \<mapsto> (pol, fse_trailers e))) (fss_fs s')"
    proof (rule metas_ok_commit [where P = "{q}"])
      show "metas_ok E (fc_latest c) (fss_fs ?s)" using assms(1) by (simp add: fs_inv_def)
    qed (use k bs tmp_file_stem [OF q(1)] in \<open>auto simp: insert_commute\<close>)
    moreover have "\<forall>x \<in> set (fc_futures c). future_ok E s' x"
      using assms(1) future_ok_keeps [OF _ k le tmp] unfolding fs_inv_def by blast
    ultimately show ?thesis using assms(1) Inr le by (auto simp: fs_inv_def intro: in_flight_mono)
  qed
qed

lemma in_flight_same_put: "same_put f g \<Longrightarrow> in_flight E t n (ff_handle f) \<Longrightarrow> in_flight E t n (ff_handle g)"
  by (auto simp: same_put_def in_flight_def handle_token_def)

lemma meta_written_same_put: "same_put f g \<Longrightarrow> meta_written E f s \<Longrightarrow> meta_written E g s"
  by (auto simp: same_put_def meta_written_def)

lemma fs_inv_poll:
  assumes "fs_inv E c" and "fc_futures c = xs @ (n, f) # ys" and "fs_poll_finalize E f (fc_state c) = (r, f', s')"
  shows "fs_inv E (c\<lparr>fc_state := s', fc_futures := xs @ (n, f') # ys,
      fc_latest := (if ff_stage f = RenamingMeta \<and> r = Ready (Inr ())
        then (fc_latest c)(fph_meta_final (ff_handle f) \<mapsto> (fph_policy (ff_handle f), ff_trailers f))
        else fc_latest c)\<rparr>)"
proof -
  let ?s = "fc_state c" and ?w = "ff_handle f" and ?P = "poll_writes f r"
  have eff: "touches ?P ?s s'" "same_put f f'" "ff_stage f' = RenamingMeta \<Longrightarrow> meta_written E f (fss_fs s')"
    "ff_stage f = RenamingMeta \<Longrightarrow> r = Ready (Inr ()) \<Longrightarrow>
       fs_lookup (fss_fs s') (fph_meta_final ?w) \<in> {None, fs_lookup (fss_fs ?s) (fph_meta_tmp ?w)}"
    using fs_poll_effect [OF assms(3)] by (auto simp: poll_effect_def)
  have me: "in_flight E (fss_temp ?s) n ?w" "ff_stage f = RenamingMeta \<Longrightarrow> meta_written E f (fss_fs ?s)"
    and others: "\<And>x. x \<in> set (xs @ ys) \<Longrightarrow> future_ok E ?s x \<and> fst x \<noteq> n"
    using assms(1,2) by (auto simp: fs_inv_def future_ok_def)
  note tok = handle_token_paths [of n ?w]
  have P: "meta_stem p = None" if "p \<in> ?P" "\<not> (ff_stage f = RenamingMeta \<and> r = Ready (Inr ()))" for p
    using that me(1) tok by (auto simp: poll_writes_def in_flight_def split: fs_stage.splits if_splits)
  have keep: "future_ok E s' x" if "x \<in> set (xs @ ys)" for x
  proof (rule future_ok_keeps)
    have "tmp_file (fst x) (fph_meta_tmp (ff_handle (snd x)))"
      using others [OF that] by (auto simp: future_ok_def in_flight_def handle_token_def)
    then show "fph_meta_tmp (ff_handle (snd x)) \<notin> ?P"
      using tok(4-6) [of "fst x" "fph_meta_tmp (ff_handle (snd x))"] me(1) others [OF that]
      by (auto simp: poll_writes_def in_flight_def split: fs_stage.split)
  qed (use others [OF that] eff(1) in \<open>auto simp: touches_def\<close>)
  have self: "future_ok E s' (n, f')"
    using eff(1-3) me(1) in_flight_same_put [OF eff(2)] meta_written_same_put [OF eff(2)]
    by (auto simp: future_ok_def touches_def)
  have old: "metas_ok E (fc_latest c) (fss_fs ?s)" using assms(1) by (simp add: fs_inv_def)
  have "metas_ok E (if ff_stage f = RenamingMeta \<and> r = Ready (Inr ())
      then (fc_latest c)(fph_meta_final ?w \<mapsto> (fph_policy ?w, ff_trailers f)) else fc_latest c) (fss_fs s')"
  proof (cases "ff_stage f = RenamingMeta \<and> r = Ready (Inr ())")
    case True
    then have "keeps (insert (fph_meta_final ?w) {}) (fss_fs ?s) (fss_fs s')"
      using eff(1) by (simp add: touches_def poll_writes_def)
    from metas_ok_commit [OF old this] True eff(4) me show ?thesis
      by (auto simp: meta_written_def encodes_def in_flight_def)
  next
    case False
    then show ?thesis using metas_ok_keeps [OF old _ P] eff(1) by (auto simp: touches_def)
  qed
  then show ?thesis
    using assms(1,2) keep self eff(1) by (auto simp: fs_inv_def touches_def intro: in_flight_mono)
qed

lemma fs_step_inv: "fs_step E c c' \<Longrightarrow> fs_inv E c \<Longrightarrow> fs_inv E c'"
proof (induction rule: fs_step.induct)
  case (write_chunk c xs n w ys buf r w')
  from write_chunk(2) have "in_flight E t n w \<Longrightarrow> in_flight E t n w'" for t
    by (auto simp: fs_poll_write_def in_flight_def handle_token_def Let_def split: prod.splits poll.splits sum.splits)
  then show ?case using write_chunk by (auto simp: fs_inv_def)
next
  case (drop c xs n w ys)
  then show ?case using fs_inv_touches [OF drop(2) touches_drop [of _ E w]] by (auto simp: fs_inv_def)
next
  case (finalize c xs n w ys tr)
  then show ?case by (auto simp: fs_inv_def future_ok_def fs_finalize_def)
next
  case (poll c xs n f ys r f' s')
  from poll(3,1,2) show ?case by (rule fs_inv_poll)
next
  case (refresh e pol c r e' s')
  from refresh(5,4,2,3,1) show ?case by (rule fs_inv_refresh)
next
  case (cancel c xs n f ys)
  then show ?case
    using fs_inv_touches [OF cancel(2) touches_drop [of _ E "ff_handle f"]] by (auto simp: fs_inv_def)
next
  case (rebuild c config)
  have "touches {} (fc_state c) (fs_rebuild E config (fc_state c))"
    using touches_scan [of "(fc_state c)\<lparr>fss_index := build_index E (fsc_max_capacity_bytes config)
        (fsc_time_to_idle config) (fsc_time_to_live config)\<rparr>" E]
    by (simp add: fs_rebuild_def touches_def)
  with rebuild show ?case by (rule fs_inv_touches)
next
  case (restart c)
  have "keeps {} (fss_fs (fc_state c)) (fss_fs (snd (fs_new E (fss_fs (fc_state c)) 0)))"
    using touches_scan [of "\<lparr>fss_fs = fss_fs (fc_state c),
        fss_index = build_index E (Some fs_DEFAULT_MAX_CAPACITY_BYTES) None None, fss_temp = 0\<rparr>" E]
    by (simp add: fs_new_def touches_def Let_def)
  with restart show ?case using metas_ok_keeps [where P = "{}"] by (auto simp: fs_inv_def)
qed (auto intro: fs_inv_put fs_inv_touches touches_get touches_open touches_invalidate
      touches_on_index simp: fs_run_pending_tasks_def)

subsection \<open>Properties\<close>

text \<open>
  The states a storage can be in, from a directory whose \<open>.meta\<close> files are complete (an empty
  one, say) and no put in flight.
\<close>

inductive fs_reach ::
  "('h, 'i, 'd, 'wr, 'r, 'b) fs_env \<Rightarrow> ('h, 'i, 'wr) fs_conf \<Rightarrow> bool" for E where
  start: "metas_ok E (fc_latest c) (fss_fs (fc_state c)) \<Longrightarrow> fc_handles c = [] \<Longrightarrow> fc_futures c = [] \<Longrightarrow> fs_reach E c"
| step: "fs_reach E c \<Longrightarrow> fs_step E c c' \<Longrightarrow> fs_reach E c'"

lemma fs_reach_inv: "fs_reach E c \<Longrightarrow> fs_inv E c"
  by (induction rule: fs_reach.induct) (simp add: fs_inv_def, blast intro: fs_step_inv)

text \<open>An entry a lookup returns was decoded from its \<open>.meta\<close> file.\<close>

definition decoded :: "('h, 'i, 'd, 'wr, 'r, 'b) fs_env \<Rightarrow> fsys \<Rightarrow> 'h fs_entry \<Rightarrow> bool" where
  "decoded E f e \<longleftrightarrow> meta_stem (fse_meta_path e) \<noteq> None \<and>
     (\<exists>bs meta. fs_lookup f (fse_meta_path e) = Some bs \<and> fe_from_bytes E bs = Inr meta \<and>
        fse_policy e = policy_from_repr (fe_ext E) (sm_policy meta) \<and> fse_trailers e = sm_trailers meta)"

lemma decoded_keeps: "decoded E g e \<Longrightarrow> keeps {} f g \<Longrightarrow> decoded E f e"
  unfolding decoded_def keeps_def by (metis empty_iff option.distinct(1))

lemma fs_get_path_entry:
  assumes "e \<in> set (fst (fs_get_path E k acc p))"
  shows "e \<in> set (fst acc) \<or> fse_meta_path e = p \<and> decoded E (fss_fs (snd acc)) e"
proof -
  obtain r f where rd: "fs_read (fe_fault E) p (fss_fs (snd acc)) = (r, f)" by (metis surj_pair)
  then have "r = Inr bs \<Longrightarrow> fs_lookup (fss_fs (snd acc)) p = Some bs" for bs
    by (auto simp: fs_read_def fs_call_def Let_def split: option.splits)
  then show ?thesis
    using assms rd
    by (cases acc) (auto simp: fs_get_path_def on_fs_def decoded_def Let_def split: option.splits sum.splits)
qed

lemma fs_get_paths_entry:
  assumes "e \<in> set (fst (foldl (fs_get_path E k) acc ps))" and "keeps {} f (fss_fs (snd acc))"
  shows "e \<in> set (fst acc) \<or> fse_meta_path e \<in> set ps \<and> decoded E f e"
  using assms
proof (induction ps arbitrary: acc)
  case (Cons p ps)
  have "keeps {} f (fss_fs (snd (fs_get_path E k acc p)))"
    using keeps_trans [OF Cons.prems(2)] touches_get_path [of acc E k p] by (fastforce simp: touches_def)
  from Cons.IH [OF _ this] Cons.prems fs_get_path_entry [of e E k acc p] decoded_keeps [OF _ Cons.prems(2)]
  show ?case by auto
qed simp

lemma fs_get_entry:
  assumes "e \<in> set (fst (fs_get E s k))"
  shows "parent (fse_meta_path e) = key_dir E k \<and> decoded E (fss_fs s) e"
proof -
  obtain r t where rd: "on_fs (fs_read_dir_paths (fe_fault E) (key_dir E k)) s = (r, t)" by (metis surj_pair)
  then obtain ps where r: "r = Inr ps" using assms by (cases r) (auto simp: fs_get_def)
  have "keeps {} (fss_fs s) (fss_fs t)" using touches_on_fs [OF rd, of "{}"] by (simp add: touches_def)
  with fs_get_paths_entry [of e E k "([], t)" ps "fss_fs s"] assms rd r
  have "fse_meta_path e \<in> set ps \<and> decoded E (fss_fs s) e" by (simp add: fs_get_def)
  moreover have "p \<in> set ps \<Longrightarrow> parent p = key_dir E k" for p
    using rd r by (auto simp: on_fs_def fs_read_dir_paths_def fs_call_def Let_def split: option.splits if_splits)
  ultimately show ?thesis by blast
qed

text \<open>
  C10: a lookup in the file-system storage shows only what was last committed: after any
  interleaving of puts, writes, finalizes, refreshes, invalidations and lookups, with calls
  that fail at any point, evictions, abandoned puts, and crashes followed by a restart, the
  policy and the trailers of a returned entry are those of the last finalize or refresh that
  succeeded for its \<open>.meta\<close> file, which lies in the directory of the key. Torn or
  uncommitted metadata is never seen.
\<close>

theorem fs_lookup_latest:
  assumes "fs_reach E c" and "\<forall>m bs. fe_to_bytes E m = Inr bs \<longrightarrow> fe_from_bytes E bs = Inr m"
    and "e \<in> set (fst (fs_get E (fc_state c) k))"
  shows "fc_latest c (fse_meta_path e) = Some (fse_policy e, fse_trailers e) \<and>
     parent (fse_meta_path e) = key_dir E k"
proof -
  have ok: "metas_ok E (fc_latest c) (fss_fs (fc_state c))" using fs_reach_inv [OF assms(1)] by (simp add: fs_inv_def)
  have par: "parent (fse_meta_path e) = key_dir E k" and dec: "decoded E (fss_fs (fc_state c)) e"
    using fs_get_entry [OF assms(3)] by simp_all
  then obtain bs meta where bs: "fs_lookup (fss_fs (fc_state c)) (fse_meta_path e) = Some bs" "fe_from_bytes E bs = Inr meta"
    and e: "fse_policy e = policy_from_repr (fe_ext E) (sm_policy meta)" "fse_trailers e = sm_trailers meta"
    and st: "meta_stem (fse_meta_path e) \<noteq> None"
    by (auto simp: decoded_def)
  obtain pol tr where l: "fc_latest c (fse_meta_path e) = Some (pol, tr)" and enc: "encodes E pol tr bs"
    using ok st bs(1) unfolding metas_ok_def by blast
  then have "meta = \<lparr>sm_policy = policy_to_repr pol, sm_trailers = tr\<rparr>"
    using assms(2) bs(2) by (auto simp: encodes_def)
  with e l enc par show ?thesis by (simp add: encodes_def policy_wf_repr)
qed

text \<open>A put and its finalize, without failures, as a run of steps.\<close>

lemma fs_reach_poll:
  assumes "fs_reach E c" and "fc_futures c = (n, f) # fs" and "fs_poll_finalize E f (fc_state c) = (r, f', s')"
  shows "\<exists>c'. fs_reach E c' \<and> fc_state c' = s' \<and> fc_futures c' = (n, f') # fs \<and>
     fc_latest c' = (if ff_stage f = RenamingMeta \<and> r = Ready (Inr ())
       then (fc_latest c)(fph_meta_final (ff_handle f) \<mapsto> (fph_policy (ff_handle f), ff_trailers f)) else fc_latest c)"
  using fs_reach.step [OF assms(1) fs_step.poll [of c "[]" n f fs, OF _ assms(3)]] assms(2)
  by (fastforce split: if_splits)

lemma fs_reach_commit:
  assumes "fs_reach E c" and E: "fs_quiet (fe_fault E)" "no_evictions (fe_index E)"
    and put: "fs_put E (fc_state c) k pol = (Inr w, s1)" "policy_wf (fe_ext E) pol" "fss_temp (fc_state c) \<noteq> - 1"
    and enc: "fe_to_bytes E \<lparr>sm_policy = policy_to_repr pol, sm_trailers = tr\<rparr> = Inr bs"
  shows "\<exists>c'. fs_reach E c' \<and> fc_latest c' = (fc_latest c)(fph_meta_final w \<mapsto> (pol, tr)) \<and>
     fs_lookup (fss_fs (fc_state c')) (fph_meta_final w) = Some bs \<and> key_dir E k \<in> set (fs_dirs (fss_fs (fc_state c')))"
proof -
  let ?n = "fss_temp (fc_state c)" and ?fut = "\<lambda>st. \<lparr>ff_stage = st, ff_handle = w, ff_trailers = tr\<rparr>"
  have w: "handle_paths E k w" and pol: "fph_policy w = pol" using fs_put_paths [OF put(1)] by simp_all
  have s1: "fs_lookup (fss_fs s1) (fph_body_tmp w) \<noteq> None" "key_dir E k \<in> set (fs_dirs (fss_fs s1))"
    using fs_put_quiet [OF E(1) put(1), of "fs_lookup (fss_fs (fc_state c))" "fs_dirs (fss_fs (fc_state c))"]
    by (auto simp: holds_files_def)
  have h1: "holds_files (fss_fs s1) (fs_lookup (fss_fs s1)) (fs_dirs (fss_fs s1))" by (simp add: holds_files_def)
  obtain t1 t2 t3 t4 fut' where p: "fs_poll_finalize E (?fut Closing) s1 = (Pending, ?fut RenamingBody, t1)"
    "fs_poll_finalize E (?fut RenamingBody) t1 = (Pending, ?fut WritingMeta, t2)"
    "fs_poll_finalize E (?fut WritingMeta) t2 = (Pending, ?fut RenamingMeta, t3)"
    "fs_poll_finalize E (?fut RenamingMeta) t3 = (Ready (Inr ()), fut', t4)"
    and h: "holds_files (fss_fs t4) ((fs_lookup (fss_fs s1))(fph_body_tmp w := None, fph_meta_tmp w := None,
       fph_body_final w := Some (fw_data (fph_writer w)), fph_meta_final w := Some bs)) (fs_dirs (fss_fs s1))"
    by (rule fs_finalize_polls [OF E w h1 s1 enc [folded pol]])
  have end_state: "fs_lookup (fss_fs t4) (fph_meta_final w) = Some bs" "key_dir E k \<in> set (fs_dirs (fss_fs t4))"
    using h s1(2) by (simp_all add: holds_files_def)
  let ?c1 = "c\<lparr>fc_state := s1, fc_handles := (?n, w) # fc_handles c\<rparr>"
  let ?c2 = "?c1\<lparr>fc_handles := fc_handles c, fc_futures := (?n, ?fut Closing) # fc_futures c\<rparr>"
  have "fs_reach E ?c1" using fs_reach.step [OF assms(1) fs_step.put [OF put]] .
  from fs_reach.step [OF this fs_step.finalize [of ?c1 "[]" ?n w "fc_handles c" E tr]]
  have "fs_reach E ?c2" by (simp add: fs_finalize_def)
  from fs_reach_poll [OF this] p(1) obtain c3 where c3: "fs_reach E c3" "fc_state c3 = t1"
    "fc_futures c3 = (?n, ?fut RenamingBody) # fc_futures c" "fc_latest c3 = fc_latest c" by fastforce
  from fs_reach_poll [OF c3(1,3)] c3 p(2) obtain c4 where c4: "fs_reach E c4" "fc_state c4 = t2"
    "fc_futures c4 = (?n, ?fut WritingMeta) # fc_futures c" "fc_latest c4 = fc_latest c" by fastforce
  from fs_reach_poll [OF c4(1,3)] c4 p(3) obtain c5 where c5: "fs_reach E c5" "fc_state c5 = t3"
    "fc_futures c5 = (?n, ?fut RenamingMeta) # fc_futures c" "fc_latest c5 = fc_latest c" by fastforce
  from fs_reach_poll [OF c5(1,3)] c5 p(4) pol end_state show ?thesis by fastforce
qed

theorem fs_lookup_latest_witness:
  "\<exists>c e. fs_reach ref_fs_env c \<and> e \<in> set (fst (fs_get ref_fs_env (fc_state c) ref_key)) \<and>
     fc_latest c (fse_meta_path e) = Some (fse_policy e, fse_trailers e) \<and> fse_policy e = ref_policy ''max-age=600'' 0"
proof -
  let ?E = ref_fs_env and ?pol = "ref_policy ''max-age=600'' 0"
  let ?c = "\<lparr>fc_state = ref_fs_state, fc_handles = [], fc_futures = [], fc_latest = (\<lambda>p. None)\<rparr>
    :: (hmap, unit, unit) fs_conf"
  obtain w s1 where put: "fs_put ?E ref_fs_state ref_key ?pol = (Inr w, s1)" by (rule ref_fs_put)
  have c: "fs_reach ?E ?c" by (rule fs_reach.start) (simp_all add: metas_ok_def ref_fs_state_def fs_lookup_def)
  have wf: "policy_wf (fe_ext ?E) ?pol" by (simp add: ref_fs_env_def ref_policy_def)
  have enc: "fe_to_bytes ?E \<lparr>sm_policy = policy_to_repr ?pol, sm_trailers = None\<rparr> = Inr [1]"
    by (simp add: ref_fs_env_def ref_meta_def)
  have "fss_temp ref_fs_state \<noteq> - 1" by (simp add: ref_fs_state_def)
  then obtain c' where c': "fs_reach ?E c'" "fc_latest c' (fph_meta_final w) = Some (?pol, None)"
    "fs_lookup (fss_fs (fc_state c')) (fph_meta_final w) = Some [1]" "key_dir ?E ref_key \<in> set (fs_dirs (fss_fs (fc_state c')))"
    using fs_reach_commit [OF c ref_quiet(1,2) _ wf _ enc] put by fastforce
  have w: "handle_paths ?E ref_key w" using fs_put_paths [OF put] by simp
  obtain vh where vh: "meta_stem (fph_meta_final w) = Some vh" using w by (auto simp: handle_paths_def)
  then obtain e where e: "entry_at ?E ref_key (fss_fs (fc_state c')) (fph_meta_final w) = Some e" "fse_meta_path e = fph_meta_final w"
    using c'(3) by (simp add: entry_at_def ref_fs_env_def)
  have "e \<in> set (fst (fs_get ?E (fc_state c') ref_key))"
    unfolding fs_get_quiet(1) [OF ref_quiet(1,2)] using e(1) c'(4) handle_parents(4) [OF w] by blast
  moreover from fs_lookup_latest [OF c'(1) ref_codec this] have "fc_latest c' (fse_meta_path e) = Some (fse_policy e, fse_trailers e)" by simp
  ultimately show ?thesis using c'(1,2) e(2) by (intro exI [of _ c'] exI [of _ e]) auto
qed

end
