(* ===== verification/Targeted.thy ===== *)
theory Targeted
  imports Validation Storability
begin

section \<open>Targeted cache control (RFC 9213)\<close>

text \<open>
  A shared cache that finds a usable \<open>CDN-Cache-Control\<close> field must decide by it alone:
  \<open>Cache-Control\<close>, \<open>Expires\<close> and \<open>Pragma\<close> of the response have no influence any more. The
  decisions are spread over \<open>src/policy.rs\<close>, \<open>src/storability.rs\<close>, \<open>src/freshness.rs\<close> and
  \<open>src/validation.rs\<close>, each of which has to leave those fields out.
\<close>

definition replaced_fields :: "header_name set" where
  "replaced_fields = {Known CacheControl, Known Expires, Known Pragma}"

text \<open>Two header maps that agree outside the replaced fields.\<close>

definition agree_outside :: "'h ext \<Rightarrow> header_name set \<Rightarrow> 'h \<Rightarrow> 'h \<Rightarrow> bool" where
  "agree_outside E N h h' \<longleftrightarrow> (\<forall>n. n \<notin> N \<longrightarrow> headers_get_values E h n = headers_get_values E h' n)"

lemma agree_outside_get:
  assumes "headers_laws E" and "agree_outside E N h h'" and "n \<notin> N"
  shows "headers_get_values E h n = headers_get_values E h' n"
    and "headers_get_str E h n = headers_get_str E h' n"
    and "headers_has_header E h n = headers_has_header E h' n"
proof -
  show same: "headers_get_values E h n = headers_get_values E h' n"
    using assms(2,3) by (simp add: agree_outside_def)
  show "headers_get_str E h n = headers_get_str E h' n" by (rule get_str_cong [OF assms(1) same])
  show "headers_has_header E h n = headers_has_header E h' n"
    unfolding headers_laws_simps(5) [OF assms(1)] same by (rule refl)
qed

lemma targeted_effective:
  assumes "headers_laws E" and "cache_control_laws E" and "agree_outside E replaced_fields h h'"
    and "snd (effective_response_cache_control E h opts)"
  shows "effective_response_cache_control E h' opts = effective_response_cache_control E h opts"
    and "fst (effective_response_cache_control E h opts) \<noteq> None"
proof -
  have "Known CdnCacheControl \<notin> replaced_fields" by (simp add: replaced_fields_def)
  note same = agree_outside_get [OF assms(1,3) this]
  have "headers_cdn_cache_control E h = headers_cdn_cache_control E h'"
    using assms(2) same(1) unfolding cache_control_laws_def by blast
  with same(2) assms(4) show "effective_response_cache_control E h' opts = effective_response_cache_control E h opts"
    and "fst (effective_response_cache_control E h opts) \<noteq> None"
    by (auto simp: effective_response_cache_control_def Let_def split: option.splits if_splits)
qed

lemma targeted_derive:
  assumes "snd (effective_response_cache_control E h opts)" and "fst (effective_response_cache_control E h opts) \<noteq> None"
  shows "derive_response_cache_control E h opts = effective_response_cache_control E h opts"
  using assms by (cases "effective_response_cache_control E h opts") (simp add: derive_response_cache_control_def)

lemma is_storable_targeted:
  assumes "effective_response_cache_control E h' opts = effective_response_cache_control E h opts"
    and "snd (effective_response_cache_control E h opts)"
  shows "is_storable E m rq st h opts = is_storable E m rq st h' opts"
proof -
  obtain cc where cc: "effective_response_cache_control E h opts = (cc, True)"
    using assms(2) by (metis prod.collapse)
  show ?thesis
    unfolding is_storable_def response_has_explicit_expiration_def assms(1) cc Let_def split_conv
    by (simp only: simp_thms)
qed

text \<open>Policies whose directives and times agree decide alike.\<close>

lemma decisions_cong:
  assumes "response_cache_control p = response_cache_control q" and "options p = options q"
    and "max_age E p = max_age E q" and "\<And>now. age E p now = age E q now"
  shows "satisfies_without_revalidation E p rq now = satisfies_without_revalidation E q rq now"
    and "is_swr_eligible E p now = is_swr_eligible E q now"
    and "is_sie_eligible E p now = is_sie_eligible E q now"
  unfolding satisfies_without_revalidation_def allows_stale_def time_to_live_def is_stale_def is_swr_eligible_def
    is_sie_eligible_def is_eligible_for_stale_serving_def stale_while_revalidate_window_def
    stale_if_error_window_def assms
  by (rule refl)+

subsection \<open>Properties\<close>

text \<open>
  C16: in a shared cache with a targeted field in effect, \<open>Cache-Control\<close>, \<open>Expires\<close> and \<open>Pragma\<close>
  of the response have no influence: two responses that agree in all other fields are both
  storable or both not, are filed under the same variant, and at every time and for every
  request have the same age, lifetime and stale-serving windows and are reused without
  revalidation alike.
\<close>

theorem targeted_fields_replace:
  assumes "headers_laws E" and "cache_control_laws E" and "agree_outside E replaced_fields h h'"
    and "snd (effective_response_cache_control E h opts)"
    and p_def: "p = policy_new E m rq st h t opts" and q_def: "q = policy_new E m rq st h' t opts"
  shows "is_storable E m rq st h opts = is_storable E m rq st h' opts \<and> same_variant_as p q \<and>
     max_age E p = max_age E q \<and>
     (\<forall>now. age E p now = age E q now \<and> is_swr_eligible E p now = is_swr_eligible E q now \<and>
        is_sie_eligible E p now = is_sie_eligible E q now) \<and>
     (\<forall>rq' now. vary_matches E p rq' = vary_matches E q rq' \<and>
        satisfies_without_revalidation E p rq' now = satisfies_without_revalidation E q rq' now)"
proof -
  note eff = targeted_effective [OF assms(1-4)]
  have der: "derive_response_cache_control E h' opts = derive_response_cache_control E h opts"
    "snd (derive_response_cache_control E h opts)"
    using targeted_derive [OF assms(4) eff(2)] targeted_derive [of E h' opts] eff assms(4) by simp_all
  note same = agree_outside_get [OF assms(1,3)]
  have out: "Known n \<notin> replaced_fields" if "n \<in> {SetCookie, Vary, Date, LastModified, Age}" for n
    using that by (auto simp: replaced_fields_def)
  have snap: "build_vary_snapshot E h rq = build_vary_snapshot E h' rq"
    using same(1) [OF out [of Vary]] by (simp add: build_vary_snapshot_def)
  have age: "age E p now = age E q now" for now
    using same(1) [OF out [of Age]] by (simp add: age_def age_header_value_def p_def q_def)
  have strs: "headers_get_str E h (Known n) = headers_get_str E h' (Known n)" if "n \<in> {SetCookie, Vary, Date, LastModified}" for n
    using same(2) [OF out] that by blast
  have max: "max_age E p = max_age E q"
    using der strs same(3) [OF out [of SetCookie]] by (intro max_age_cong) (simp_all add: p_def q_def)
  have "satisfies_without_revalidation E p rq' now = satisfies_without_revalidation E q rq' now"
    "is_swr_eligible E p now = is_swr_eligible E q now" "is_sie_eligible E p now = is_sie_eligible E q now" for rq' now
    using decisions_cong [of p q E, OF _ _ max age] der(1) by (simp_all add: p_def q_def)
  moreover have "is_storable E m rq st h opts = is_storable E m rq st h' opts"
    by (rule is_storable_targeted [OF eff(1) assms(4)])
  moreover have "same_variant_as p q" "vary_matches E p rq' = vary_matches E q rq'" for rq'
    using snap by (simp_all add: same_variant_as_def vary_matches_def p_def q_def)
  ultimately show ?thesis using max age by blast
qed

text \<open>The targeted field allows an hour; \<open>Cache-Control\<close> of the first response forbids storing it.\<close>

theorem targeted_fields_replace_witness:
  "is_storable ref_env Get [] 200 [(Known CdnCacheControl, [Utf8 ''max-age=3600'']),
        (Known CacheControl, [Utf8 ''no-store'']), (Known Expires, [Utf8 ''0''])] (cache_options_default\<lparr>shared := True\<rparr>)
   \<and> max_age ref_env (policy_new ref_env Get [] 200 [(Known CdnCacheControl, [Utf8 ''max-age=3600'']),
        (Known CacheControl, [Utf8 ''no-store'']), (Known Expires, [Utf8 ''0''])] 0 (cache_options_default\<lparr>shared := True\<rparr>))
     = 3600000000000"
proof -
  let ?h = "[(Known CdnCacheControl, [Utf8 ''max-age=3600'']), (Known CacheControl, [Utf8 ''no-store'']),
    (Known Expires, [Utf8 ''0''])]" and ?h' = "[(Known CdnCacheControl, [Utf8 ''max-age=3600''])]"
  let ?opts = "cache_options_default\<lparr>shared := True\<rparr>"
  have agree: "agree_outside ref_env replaced_fields ?h ?h'"
    by (auto simp: agree_outside_def replaced_fields_def ref_env_def ref_get_values_def)
  have "snd (effective_response_cache_control ref_env ?h ?opts)" by code_simp
  from targeted_fields_replace [OF ref_env_laws(1,3) agree this refl refl, of Get "[]" 200 0]
  have "is_storable ref_env Get [] 200 ?h ?opts = is_storable ref_env Get [] 200 ?h' ?opts"
    "max_age ref_env (policy_new ref_env Get [] 200 ?h 0 ?opts) = max_age ref_env (policy_new ref_env Get [] 200 ?h' 0 ?opts)"
    by simp_all
  moreover have "is_storable ref_env Get [] 200 ?h' ?opts" by code_simp
  moreover have "max_age ref_env (policy_new ref_env Get [] 200 ?h' 0 ?opts) = 3600000000000" by code_simp
  ultimately show ?thesis by simp
qed

end
