(* ===== verification/Spec2Isabelle.thy ===== *)
theory Spec2Isabelle
  imports Server Tiered Fs_History Targeted
begin

text \<open>
  A verification development for \<open>trillium-cache\<close>, an HTTP cache (RFC 9111) for the client and
  the server side of the trillium web framework.

  \<^bold>\<open>The program.\<close> A handler sits on the path of an exchange. Before the request it looks up the
  request's \<open>CacheKey\<close> in a storage and asks the policy of each candidate what to do: serve it,
  revalidate it, or try the next one. After the response it stores what may be stored, refreshes
  the entry a 304 confirmed, serves a stale entry in place of an error, or invalidates what an
  unsafe method has changed. A response is stored while the user reads it: the body is wrapped in
  a reader that copies each chunk into the storage's put handle and finalizes the handle at the
  end of the body. Three storages implement one interface: memory, files, and a fast tier over a
  durable one.

  \<^bold>\<open>Theories and sources\<close> (all paths under \<open>src/\<close> of the crate), in the order of the imports:
  \<^item> \<open>Prelude\<close>, \<open>Rust_Float\<close>: what the crate uses of the language and its standard library:
    \<open>u8\<close>, \<open>u64\<close> and \<open>usize\<close> as words, results, polls, strings, \<open>Duration\<close> and \<open>SystemTime\<close> with
    their saturating and panicking operations, and the one floating-point expression.
  \<^item> \<open>Http\<close>: the crates \<open>trillium_http\<close>, \<open>trillium_caching_headers\<close>, \<open>httpdate\<close> and \<open>url\<close> as a
    record of operations that every definition takes as an argument, with the documented
    behaviour of header maps as named hypotheses. \<open>Reference_Env\<close> is an instance of it on which
    the witnesses compute.
  \<^item> \<open>Policy\<close> (\<open>policy.rs\<close>): \<open>CacheOptions\<close>, \<open>CachePolicy\<close>, targeted cache control, the \<open>Vary\<close>
    snapshot, the on-disk form. \<open>Storability\<close> (\<open>storability.rs\<close>): \<open>is_storable\<close>. \<open>Freshness\<close>
    (\<open>freshness.rs\<close>): age, lifetime, stale windows. \<open>Validation\<close> (\<open>validation.rs\<close>):
    \<open>before_request\<close>, \<open>after_response\<close>, conditional requests and the heads that are served.
    \<open>Targeted\<close>: what these decisions make of \<open>CDN-Cache-Control\<close> (RFC 9213) together.
  \<^item> \<open>Storage\<close> (\<open>storage.rs\<close>): \<open>CacheKey\<close>, and the traits as records of operations. Their
    contracts are the locales \<open>cache_storage\<close>, \<open>lossless_storage\<close>, \<open>put_writer\<close>,
    \<open>streaming_storage\<close> and \<open>byte_source\<close>; a history is a list of operations of any number of
    clients, interleaved in any order.
  \<^item> \<open>Memory\<close> (\<open>memory.rs\<close>): the in-memory storage over a parameter for the \<open>moka\<close> map.
    It interprets the storage locales.
  \<^item> \<open>Tee\<close> (\<open>tee.rs\<close>): the state machine of \<open>TeeingReader\<close> over any put handle and any body.
    \<open>Streaming\<close>: its properties, and what it leaves in the in-memory storage.
  \<^item> \<open>Handler\<close>, \<open>Client\<close> (\<open>client.rs\<close>), \<open>Server\<close> (\<open>server.rs\<close>): the handlers as functions on the
    connection, the storage and the clock, with the background tasks they spawn. \<open>Handler\<close> has
    the code both files repeat.
  \<^item> \<open>Tiered\<close> (\<open>tiered.rs\<close>): two storages given by their operations, promotion on open, and the
    write-back as a task that runs at any later point. The locale \<open>two_tiers\<close> states what the
    tiers promise; it is interpreted on two in-memory storages.
  \<^item> \<open>File_System\<close> (\<open>fs_shims.rs\<close>): the functions of \<open>std::fs\<close> on a table of files and a list of
    directories, where an oracle decides which call fails. \<open>Fs\<close> (\<open>fs.rs\<close>): paths, the
    capacity index and its eviction listener, the scan at the start, lookups, puts, finalizing
    and refreshing. Its put handle interprets \<open>put_writer\<close>. \<open>Fs_Properties\<close>: what single
    operations guarantee. \<open>Fs_History\<close>: steps of any number of clients, with crashes and restarts,
    and the invariant of the states they reach.
  \<^item> This theory: what the client-side handler, the tee and the in-memory storage do together:
    from a miss to a hit, what a hit serves, revalidation in the foreground and background,
    partial responses.

  \<^bold>\<open>What is shown.\<close>
  \<^item> Decisions: when a stored response may be reused, what may be stored, the exact age
    from the text of the \<open>Age\<close> field, the stale windows, the heads served and the conditional
    requests sent, and that a revalidation refreshes the stored variant. In a shared cache with
    a targeted field in effect no decision depends on \<open>Cache-Control\<close>, \<open>Expires\<close> or \<open>Pragma\<close>.
  \<^item> Storages: what a lookup returns was committed under that key and not invalidated since, for
    memory and for tiers over any storages with that contract; memory without limits refines the
    specification by lists of variants. The file-system storage commits with the rename of the
    \<open>.meta\<close> file whatever call fails; in every history a lookup shows only the last commit;
    without failures what was put comes back. It tells keys and variants apart up to collisions
    of SHA-256.
  \<^item> Streaming: the user sees the upstream body unchanged; the storage gets all of it or nothing.
    The same holds for the copy a background revalidation makes.
  \<^item> Handlers: answers without the network come only from matching entries that may be served;
    only storable responses are stored; unsafe methods invalidate; errors are hidden only inside
    the stale-if-error window; the handlers of the two sides agree, outside the stale-while-
    revalidate window and transport errors; the client-side handler panics exactly where it
    needs an age that is not representable. A response that missed is replayed to later
    requests with the same bytes, a 304 refreshes the stored entry and is answered from it, a
    background revalidation refreshes or replaces the entry and returns, and after any history
    of the storage a hit serves a response that was committed for the request. By its age a response is served, served stale
    with a revalidation in the background, revalidated first, and served in place of an error
    in exactly the periods its directives give.
  \<^item> Defects, each a theorem on the code as it is: the age addition can panic; a 304 that confirms
    the client's own entity tag refreshes the stored body; \<open>max-stale\<close> reuses a \<open>no-cache\<close>
    response; a 206 is stored and replayed to requests for the whole representation; a \<open>no-cache\<close>
    request is answered with a stale entry inside the stale-while-revalidate window; fields on
    several lines are misread: a request field does not select a variant, fields \<open>Connection\<close>
    names are served, the client's entity tags are lost or weak ones forwarded; an \<open>Age\<close> beyond
    64 bits counts as zero; replacing an entry on disk shows the old
    policy with the new body; a refresh brings back an evicted entry without its body; a flush
    can pair the policy of one response with the body of another; a promoted variant hides its
    siblings.

  \<^bold>\<open>Panics, loops and time.\<close> \<open>None\<close> is a panic in the decisions and the handlers. A loop that
  polls code outside the crate is a \<open>partial_function\<close> whose \<open>None\<close> also covers not returning;
  that it returns is then part of the theorem, under the hypothesis that the body read is ready
  when polled. No definition takes fuel. The clock is an argument, one for each call of
  \<open>SystemTime::now\<close>. An \<open>async\<close> function that other tasks can interleave with (the finalize of a
  put handle) is a state machine with one awaited call in each poll; the other storage operations
  are atomic steps of a history. The counter of temporary names in \<open>fs.rs\<close> is taken not to wrap
  within one process. Bytes written to a put handle of \<open>fs.rs\<close> are kept in the handle and reach
  the temporary file when it is closed, which no lookup can tell from writing them at once.
  Dropping a put handle without finalizing it is \<open>fs_drop\<close>, a step of a history of its own: the
  tee only forgets the handle. Characters are code points below 256, so \<open>trim\<close> knows the
  whitespace among those.

  \<^bold>\<open>Not modelled.\<close> \<open>Debug\<close> and logging; accessors and the statistics \<open>entry_count\<close> and
  \<open>weighted_size\<close>, which forward to \<open>moka\<close>; \<open>poll_flush\<close> and \<open>poll_close\<close> of the put handles,
  which forward to the writer below or do nothing; the re-exports of \<open>lib.rs\<close>; the three runtimes
  behind \<open>fs_shims.rs\<close>, which forward to the same functions of \<open>std::fs\<close>, and its variant
  without a runtime, which panics on every call; \<open>test_helpers.rs\<close>, the tests and the examples.
  Eviction of \<open>moka\<close>, SHA-256, \<open>rkyv\<close>, the body type and the network are parameters.
\<close>

section \<open>From a miss to a hit\<close>

lemma mem_fresh_hit:
  assumes "method_is_safe E (conn_method c)"
    and "visible (in_memory_storage_ops p) ime_variant s (cache_key_new (conn_method c) (conn_url c)) = us @ [v]"
    and "\<forall>u \<in> set us. \<not> vary_matches E (v_policy u) (conn_request_headers c)"
    and "before_request E (v_policy v) (conn_request_headers c) now = Some (Fresh head)"
  shows "\<exists>c' s' len. client_run E (in_memory_storage_ops p) now c s = Some (c', s', []) \<and>
     conn_halted c' \<and> conn_status c' = Some (cr_status head) \<and> conn_response_headers c' = cr_headers head \<and>
     conn_response_body c' = Some (PlainBody (me_new_body p
       \<lparr>rbs_body = v_body v, rbs_position = 0, rbs_trailers = v_trailers v\<rparr> len))"
proof -
  let ?S = "in_memory_storage_ops p" and ?k = "cache_key_new (conn_method c) (conn_url c)"
  obtain es s1 where g: "storage_get ?S s ?k = (es, s1)" by (metis surj_pair)
  then have "map ime_variant es = us @ [v]"
    using assms(2) by (simp add: visible_def del: visible_in_memory)
  then obtain fs e where e: "es = fs @ [e]" "map ime_variant fs = us" "ime_variant e = v"
    by (auto simp: map_eq_append_conv)
  have pol: "entry_policy ?S e = v_policy (ime_variant e)" for e
    by (simp add: mem_sel in_memory_policy_def)
  have "before_request E (entry_policy ?S e) (conn_request_headers c) now = Some (Fresh head)"
    using assms(4) e(3) pol by simp
  moreover have "\<forall>f \<in> set fs. \<not> vary_matches E (entry_policy ?S f) (conn_request_headers c)"
    using assms(3) pol e(2) by auto
  ultimately show ?thesis
    using assms(1) g e run_candidates_skip [of fs E ?S c]
    by (auto simp: client_run_def mem_sel in_memory_open_def Let_def)
qed

text \<open>
  C4: a response that missed the cache is replayed to later requests. For an in-memory storage
  that loses nothing: when a storable response to a missed request announces no
  \<open>Content-Length\<close> above the cap and its body fits the cap, the handler gives the caller a body
  that reads as the network's, reading it to the end returns, and from then on a request with
  that method and URI for which the policy of the exchange is fresh, and which no other variant
  stored under the key matches as well, is answered without the network, with the policy's head
  and a body of the same bytes.
\<close>

theorem miss_then_hit:
  assumes "mem_lossless p" and "me_keeps p s2" and "\<forall>src len. rem (me_new_body p src len) = replay_remaining src"
    and "byte_source (body_poll_read B) rem" and "always_ready B" and "0 < n" and "n < 2 ^ 64"
    and "client_run E (in_memory_storage_ops p) now c s = Some (c1, s1, tasks)" and "conn_state c = None"
    and "conn_state c1 = Some (Miss key)"
    and "conn_state c2 = conn_state c1" and "conn_method c2 = conn_method c" and "conn_status c2 = Some st"
    and "is_storable E (conn_method c) (conn_request_headers c2) st (conn_response_headers c2) (handler_options cch)"
    and "\<forall>len. Option.bind (headers_get_str E (conn_response_headers c2) (Known ContentLength)) parse_u64 = Some len
      \<longrightarrow> len \<le> max_cacheable_size cch"
    and "conn_response_body c2 = Some body" and "u = served_unframed V body (served_len V body)"
    and "length (rem u) \<le> unat (max_cacheable_size cch)"
    and pol: "pol = policy_new E (conn_method c) (conn_request_headers c2) st (conn_response_headers c2) t3 (handler_options cch)"
  shows "\<exists>c3 t len t' s4. client_after_response E (in_memory_storage_ops p) V cch t1 t2 t3 c2 s2 = Some (c3, s2) \<and>
     conn_response_body c3 = Some (TeedBody t len) \<and>
     tee_read_to_end B (in_memory_put_ops p) n t s2 = Some (Inr (rem u), t', s4) \<and>
     (\<forall>c4 now' head. conn_method c4 = conn_method c \<longrightarrow> conn_url c4 = conn_url c \<longrightarrow>
        (\<forall>v \<in> set (visible (in_memory_storage_ops p) ime_variant s2 key).
           same_variant_as (v_policy v) pol \<or> \<not> vary_matches E (v_policy v) (conn_request_headers c4)) \<longrightarrow>
        before_request E pol (conn_request_headers c4) now' = Some (Fresh head) \<longrightarrow>
        (\<exists>c5 s5 b. client_run E (in_memory_storage_ops p) now' c4 s4 = Some (c5, s5, []) \<and> conn_halted c5 \<and>
           conn_status c5 = Some (cr_status head) \<and> conn_response_headers c5 = cr_headers head \<and>
           conn_response_body c5 = Some (PlainBody b) \<and> rem b = rem u))"
proof -
  let ?S = "in_memory_storage_ops p" and ?k = "cache_key_new (conn_method c) (conn_url c)"
  have safe: "method_is_safe E (conn_method c)"
    using assms(8,10) by (auto simp: client_run_def Let_def split: if_splits)
  then have "run_candidates E ?S ?k now c (fst (storage_get ?S s ?k)) (snd (storage_get ?S s ?k)) = Some (c1, s1, tasks)"
    using assms(8) by (simp add: client_run_def split_def Let_def)
  from run_candidates_outcome [OF this] assms(9,10) have key: "key = ?k" by (elim disjE) auto
  let ?w = "\<lparr>imp_key = key, imp_policy = pol, imp_buffer = []\<rparr>"
  let ?t = "tee_new u ?w (max_cacheable_size cch)"
  let ?us = "filter (\<lambda>v. \<not> same_variant_as (v_policy v) pol) (visible ?S ime_variant s2 key)"
  have "\<not> (case Option.bind (headers_get_str E (conn_response_headers c2) (Known ContentLength)) parse_u64 of
      None \<Rightarrow> False | Some len \<Rightarrow> max_cacheable_size cch < len)"
    using assms(15) by (auto split: option.split)
  then have ar: "client_after_response E ?S V cch t1 t2 t3 c2 s2 =
      Some (c2\<lparr>conn_state := None, conn_response_body := Some (TeedBody ?t (served_len V body))\<rparr>, s2)"
    using assms(10-14,16,17) pol
    by (simp add: client_after_response_def client_dispatch_def client_handle_miss_def mem_sel
        in_memory_put_def Let_def)
  obtain t' s4 where rd: "tee_read_to_end B (in_memory_put_ops p) n ?t s2 = Some (Inr (rem u), t', s4)"
    and vis: "visible ?S ime_variant s4 key = ?us @ [\<lparr>v_policy = pol, v_body = rem u, v_trailers = tee_trailers t'\<rparr>]"
    using mem_tee_commits [OF assms(1,2,4-7,18), of key pol] by (auto simp: spec_commit_def)
  have hit: "\<exists>c5 s5 b. client_run E ?S now' c4 s4 = Some (c5, s5, []) \<and> conn_halted c5 \<and>
      conn_status c5 = Some (cr_status head) \<and> conn_response_headers c5 = cr_headers head \<and>
      conn_response_body c5 = Some (PlainBody b) \<and> rem b = rem u"
    if "conn_method c4 = conn_method c" "conn_url c4 = conn_url c"
      "\<forall>v \<in> set (visible ?S ime_variant s2 key).
         same_variant_as (v_policy v) pol \<or> \<not> vary_matches E (v_policy v) (conn_request_headers c4)"
      "before_request E pol (conn_request_headers c4) now' = Some (Fresh head)" for c4 now' head
  proof -
    have "\<forall>v \<in> set ?us. \<not> vary_matches E (v_policy v) (conn_request_headers c4)"
      using that(3) by (auto simp del: visible_in_memory)
    from mem_fresh_hit [of E c4 p s4, OF _ vis [unfolded key, folded that(1,2)] this [unfolded key, folded that(1,2)], of now' head]
    show ?thesis using that safe assms(3) by (fastforce simp: replay_remaining_def)
  qed
  show ?thesis using ar rd hit by fastforce
qed

text \<open>A request whose bodies are lists of bytes, for the witness.\<close>

definition ref_bytes_conn ::
  "(hmap, bytes, hmap in_memory_put_handle, hmap in_memory_future, hmap in_memory_entry) client_conn" where
  "ref_bytes_conn =
     \<lparr>conn_method = Get, conn_request_headers = [], conn_status = None, conn_response_headers = [],
      conn_response_body = None, conn_halted = False, conn_state = None,
      conn_url = ''http://h/a'', conn_error = None\<rparr>"

definition ref_bytes_response ::
  "(hmap, bytes, hmap in_memory_put_handle, hmap in_memory_future, hmap in_memory_entry) client_conn" where
  "ref_bytes_response = ref_bytes_conn\<lparr>conn_state := Some (Miss ref_key), conn_status := Some 200,
      conn_response_headers := [(Known CacheControl, [Utf8 ''max-age=600''])],
      conn_response_body := Some (PlainBody [104, 105])\<rparr>"

theorem miss_then_hit_witness:
  "\<exists>c3 t len t' s4 c5 s5. client_after_response ref_env (in_memory_storage_ops ref_bytes_env) ref_list_served
       cache_new 0 0 0 ref_bytes_response (\<lambda>k. None) = Some (c3, \<lambda>k. None) \<and>
     conn_response_body c3 = Some (TeedBody t len) \<and>
     tee_read_to_end ref_body_ops (in_memory_put_ops ref_bytes_env) 8 t (\<lambda>k. None) = Some (Inr [104, 105], t', s4) \<and>
     client_run ref_env (in_memory_storage_ops ref_bytes_env) 5000000000 ref_bytes_conn s4 = Some (c5, s5, []) \<and>
     conn_response_body c5 = Some (PlainBody [104, 105])"
proof -
  let ?S = "in_memory_storage_ops ref_bytes_env"
  have keeps: "me_keeps ref_bytes_env (\<lambda>k. None)"
    "\<forall>src len. id (me_new_body ref_bytes_env src len) = replay_remaining src"
    "visible ?S ime_variant (\<lambda>k. None) ref_key = []"
    by (simp_all add: ref_bytes_env_def bucket_of_def ref_moka_def)
  have ready: "always_ready ref_body_ops" by (simp add: always_ready_def ref_body_ops_def)
  have run: "client_run ref_env ?S 0 ref_bytes_conn (\<lambda>k. None)
      = Some (ref_bytes_conn\<lparr>conn_state := Some (Miss ref_key)\<rparr>, (\<lambda>k. None), [])"
    by (simp add: client_run_def ref_bytes_conn_def ref_key_def ref_env_def mem_get
        in_memory_get_def ref_bytes_env_def ref_moka_def)
  have conn: "conn_state ref_bytes_conn = None"
    "conn_state (ref_bytes_conn\<lparr>conn_state := Some (Miss ref_key)\<rparr>) = Some (Miss ref_key)"
    "conn_state ref_bytes_response = conn_state (ref_bytes_conn\<lparr>conn_state := Some (Miss ref_key)\<rparr>)"
    "conn_method ref_bytes_response = conn_method ref_bytes_conn" "conn_status ref_bytes_response = Some 200"
    "conn_response_body ref_bytes_response = Some (PlainBody [104, 105])"
    by (simp_all add: ref_bytes_conn_def ref_bytes_response_def)
  have st: "is_storable ref_env (conn_method ref_bytes_conn) (conn_request_headers ref_bytes_response) 200
      (conn_response_headers ref_bytes_response) (handler_options cache_new)"
    and "headers_get_str ref_env (conn_response_headers ref_bytes_response) (Known ContentLength) = None"
    by code_simp+
  then have cl: "\<forall>len. Option.bind (headers_get_str ref_env (conn_response_headers ref_bytes_response) (Known ContentLength))
      parse_u64 = Some len \<longrightarrow> len \<le> max_cacheable_size cache_new"
    by simp
  have u: "[104, 105] = served_unframed ref_list_served (PlainBody [104, 105])
      (served_len ref_list_served (PlainBody [104, 105]))"
    "length (id [104, 105 :: 8 word]) \<le> unat (max_cacheable_size cache_new)"
    by (simp add: ref_list_served_def) code_simp
  have "(case before_request ref_env (policy_new ref_env (conn_method ref_bytes_conn)
      (conn_request_headers ref_bytes_response) 200 (conn_response_headers ref_bytes_response) 0
      (handler_options cache_new)) (conn_request_headers ref_bytes_conn) 5000000000 of
      Some (Fresh head) \<Rightarrow> True | _ \<Rightarrow> False)"
    by code_simp
  then obtain head where "before_request ref_env (policy_new ref_env (conn_method ref_bytes_conn)
      (conn_request_headers ref_bytes_response) 200 (conn_response_headers ref_bytes_response) 0
      (handler_options cache_new)) (conn_request_headers ref_bytes_conn) 5000000000 = Some (Fresh head)"
    by (auto split: option.splits BeforeRequest.splits)
  with miss_then_hit [where ?t1.0 = 0 and ?t2.0 = 0 and ?t3.0 = 0 and n = 8 and V = ref_list_served,
      OF ref_bytes_lossless keeps(1,2) ref_body_source ready _ _ run conn(1-5) st cl conn(6) u refl] keeps(3)
  show ?thesis by (fastforce simp: id_def)
qed

section \<open>What a hit serves\<close>

text \<open>
  C3: whatever the handler answers from an in-memory storage was stored for that request. After any
  history of the storage, an answer without the network is a bodiless 304 or has the status of
  a stored response and a body that replays its bytes from the start; that response was
  committed under the request's own method and URI and not invalidated since, and matches the
  request in the header fields its \<open>Vary\<close> names.
\<close>

theorem hit_serves_committed:
  assumes "mem_ok p" and "store_reach (in_memory_storage_ops p) (in_memory_put_ops p) ime_variant
      (build_cache (me_moka p) cap tti ttl) ops s"
    and "client_run E (in_memory_storage_ops p) now c s = Some (c', s', tasks)"
    and "\<not> conn_halted c" and "conn_halted c'"
  shows "\<exists>v. committed ime_key future_key future_variant ops (cache_key_new (conn_method c) (conn_url c)) v \<and>
     vary_matches E (v_policy v) (conn_request_headers c) \<and>
     (conn_status c' = Some 304 \<and> conn_response_body c' = Some EmptyBody \<or>
      conn_status c' = Some (response_status (v_policy v)) \<and>
      (\<exists>len. conn_response_body c' = Some (PlainBody (me_new_body p
         \<lparr>rbs_body = v_body v, rbs_position = 0, rbs_trailers = v_trailers v\<rparr> len))))"
proof -
  let ?S = "in_memory_storage_ops p" and ?k = "cache_key_new (conn_method c) (conn_url c)"
  obtain e where e: "e \<in> set (fst (storage_get ?S s ?k))"
    and m: "vary_matches E (entry_policy ?S e) (conn_request_headers c)"
    and ans: "candidate_answers E ?S now (conn_request_headers c) e c' tasks"
    using client_halted_candidate [OF assms(3-5)] by blast
  have "ime_variant e \<in> set (visible ?S ime_variant s ?k)"
    using e by (simp add: visible_def del: visible_in_memory)
  from mem_store.reach_origin [OF assms(2,1) build_cache_empty [OF assms(1)] this]
  have "committed ime_key future_key future_variant ops ?k (ime_variant e)" .
  moreover have pol: "entry_policy ?S e = v_policy (ime_variant e)"
    by (simp add: mem_sel in_memory_policy_def)
  moreover have "\<exists>len. conn_response_body c' = Some (PlainBody (me_new_body p
       \<lparr>rbs_body = v_body (ime_variant e), rbs_position = 0, rbs_trailers = v_trailers (ime_variant e)\<rparr> len))"
    if "answered_with ?S e r c'" for r
    using that by (auto simp: answered_with_def mem_sel in_memory_open_def Let_def)
  moreover have "cr_status r = response_status (v_policy (ime_variant e))"
    if "cached_response E (entry_policy ?S e) now = Some r" for r
    using that by (auto simp: cached_response_Some_iff pol)
  moreover have "cr_status r = 304" if "cached_response_304 E (entry_policy ?S e) now = Some r" for r
    using that by (auto simp: cached_response_304_def Let_def bind_Some_iff)
  ultimately show ?thesis
    using m ans unfolding candidate_answers_def pol
    by (intro exI [of _ "ime_variant e"])
       (auto simp: answered_with_def dest: before_request_FreshD(4) before_request_304D(4))
qed

theorem hit_serves_committed_witness:
  "\<exists>c' s' tasks v. client_run ref_env ref_storage 5000000000 (ref_client_conn Get)
       (apply_op ref_storage (in_memory_put_ops ref_mem_env) (OpPollFinalize ref_future)
          (build_cache (me_moka ref_mem_env) None None None)) = Some (c', s', tasks) \<and>
     committed (ime_key :: hmap in_memory_entry \<Rightarrow> cache_key) future_key future_variant
       [OpPollFinalize ref_future] ref_key v \<and>
     conn_response_body c' = Some (PlainBody \<lparr>rbs_body = [104, 105], rbs_position = 0, rbs_trailers = None\<rparr>)"
proof -
  let ?P = "in_memory_put_ops ref_mem_env" and ?init = "build_cache (me_moka ref_mem_env) None None None"
  let ?s = "apply_op ref_storage ?P (OpPollFinalize ref_future) ?init"
  have reach: "store_reach ref_storage ?P ime_variant ?init [OpPollFinalize ref_future] ?s"
    by (rule store_reach.step [OF store_reach.start])
  have "(case client_run ref_env ref_storage 5000000000 (ref_client_conn Get) ?s of
      None \<Rightarrow> False | Some (c', s', tasks) \<Rightarrow> conn_halted c' \<and> conn_status c' = Some 200)"
    by code_simp
  then obtain c' s' tasks where r: "client_run ref_env ref_storage 5000000000 (ref_client_conn Get) ?s = Some (c', s', tasks)"
    and h: "conn_halted c'" "conn_status c' = Some 200"
    by (auto split: option.splits)
  have "\<not> conn_halted (ref_client_conn Get)"
    and key: "cache_key_new (conn_method (ref_client_conn Get)) (conn_url (ref_client_conn Get)) = ref_key"
    by (simp_all add: ref_client_conn_def ref_key_def)
  from hit_serves_committed [OF ref_mem_ok reach r this(1) h(1)] obtain v len where
    v: "committed (ime_key :: hmap in_memory_entry \<Rightarrow> cache_key) future_key future_variant [OpPollFinalize ref_future] ref_key v"
    and b: "conn_response_body c' = Some (PlainBody (me_new_body ref_mem_env
         \<lparr>rbs_body = v_body v, rbs_position = 0, rbs_trailers = v_trailers v\<rparr> len))"
    using h(2) unfolding key by auto
  have "v_body v = [104, 105]" "v_trailers v = None"
    using v by (auto simp: committed_def Cons_eq_append_conv ref_future_def future_variant_def)
  with b v r show ?thesis by (auto simp: ref_mem_env_def)
qed

section \<open>Revalidation\<close>



section \<open>Background revalidation\<close>

text \<open>
  C15: what a background revalidation leaves in an in-memory storage that loses nothing, once
  the origin has answered with a body that is ready when polled: the task returns; after a 304
  the stored variant with the \<open>Vary\<close> signature of the merged policy has that policy and
  everything else is as it was; after any other answer the key of the entry holds the new
  response with its complete body, in place of a variant of the same signature, if the response
  is storable and its body fits the cap, and otherwise nothing has changed.
\<close>

theorem background_revalidation_outcome:
  assumes "mem_lossless p" and "me_keeps p s" and "byte_source (body_poll_read B) rem" and "always_ready B"
    and "max_cacheable_size cch < - 1"
    and "client_send C ((client_build_conn C (bg_method task) (bg_url task))
      \<lparr>conn_request_headers := bg_request_headers task\<rparr>) = Inr c" and "conn_status c = Some st"
  shows "\<exists>s' q head tr. background_revalidation E (in_memory_storage_ops p) B (in_memory_put_ops p) V C cch now task s = Some s' \<and>
     (st = 304 \<longrightarrow> after_response E (in_memory_policy (bg_stored task)) (conn_request_headers c) st
        (conn_response_headers c) now = Some (Refreshed q head)) \<and>
     (\<forall>k. visible (in_memory_storage_ops p) ime_variant s' k =
       (let vs = visible (in_memory_storage_ops p) ime_variant s k
        in if st = 304 then if k = ime_key (bg_stored task) then spec_refresh q vs else vs
           else case conn_response_body c of
             None \<Rightarrow> vs
           | Some body \<Rightarrow>
               (let u = served_unframed V body (served_len V body)
                in if k = bg_key task \<and> length (rem u) \<le> unat (max_cacheable_size cch) \<and>
                     is_storable E (conn_method c) (conn_request_headers c) st (conn_response_headers c) (handler_options cch)
                   then spec_commit \<lparr>v_policy = policy_new E (conn_method c) (conn_request_headers c) st
                          (conn_response_headers c) now (handler_options cch), v_body = rem u, v_trailers = tr\<rparr> vs
                   else vs)))"
proof -
  let ?S = "in_memory_storage_ops p" and ?P = "in_memory_put_ops p" and ?e = "bg_stored task"
  let ?bg = "background_revalidation E ?S B ?P V C cch now task s"
  have vis: "visible ?S ime_variant (apply_op ?S ?P op s) k
      = op_effect ime_key future_key future_variant op k (visible ?S ime_variant s k)" for op k
    by (rule mem_exact.exact_law [OF assms(1,2)])
  note defs = background_revalidation_def Let_def assms(6,7) mem_sel
  show ?thesis
  proof (cases "st = 304")
    case True
    obtain q head where a: "after_response E (in_memory_policy ?e) (conn_request_headers c) st
        (conn_response_headers c) now = Some (Refreshed q head)"
      using True after_response_total [of E "in_memory_policy ?e" "conn_request_headers c" st "conn_response_headers c" now]
      by (auto simp: after_response_def Let_def)
    have "?bg = Some (apply_op ?S ?P (OpRefresh ?e q) s)"
      using a by (simp add: defs refresh_eq)
    with a True show ?thesis by (auto simp: vis simp del: apply_op.simps visible_in_memory)
  next
    case False
    then have a: "after_response E (in_memory_policy ?e) (conn_request_headers c) st
        (conn_response_headers c) now = Some Modified" by (simp add: after_response_def)
    let ?st = "is_storable E (conn_method c) (conn_request_headers c) st (conn_response_headers c) (handler_options cch)"
    let ?pol = "policy_new E (conn_method c) (conn_request_headers c) st (conn_response_headers c) now (handler_options cch)"
    show ?thesis
    proof (cases "?st \<and> conn_response_body c \<noteq> None")
      case no: False
      then have "?bg = Some s"
        using a by (auto simp: defs in_memory_put_def split: option.split)
      with no False show ?thesis by (auto simp: Let_def split: option.split simp del: visible_in_memory)
    next
      case True
      then obtain body where b: "conn_response_body c = Some body" and stb: ?st by blast
      let ?u = "served_unframed V body (served_len V body)"
      let ?w = "\<lparr>imp_key = bg_key task, imp_policy = ?pol, imp_buffer = []\<rparr>"
      have bg: "?bg = map_option snd (copy_loop B ?P (max_cacheable_size cch) ?u ?w 0 s)"
        using a b stb by (simp add: defs in_memory_put_def copy_into_storage_def)
      note copy = copy_loop_memory [OF assms(3-5), of 0 ?u p ?w s]
      show ?thesis
      proof (cases "length (rem ?u) \<le> unat (max_cacheable_size cch)")
        case fits: True
        with copy obtain tr where "copy_loop B ?P (max_cacheable_size cch) ?u ?w 0 s =
            Some (Inr (), apply_op ?S ?P (OpPollFinalize (?w\<lparr>imp_buffer := rem ?u\<rparr>, tr)) s)"
          by (auto simp del: apply_op.simps)
        with bg b stb fits False show ?thesis
          by (auto simp: vis future_key_def future_variant_def Let_def intro!: exI [of _ tr]
              simp del: apply_op.simps visible_in_memory)
      next
        case False
        with copy bg b stb \<open>st \<noteq> 304\<close> show ?thesis by (auto simp: Let_def simp del: visible_in_memory)
      qed
    qed
  qed
qed

text \<open>A network that gives one answer to every request, for the witness.\<close>

definition ref_client_ops ::
  "(hmap, bytes, hmap in_memory_put_handle, hmap in_memory_future, hmap in_memory_entry) client_ops" where
  "ref_client_ops = \<lparr>client_build_conn = (\<lambda>m u. ref_bytes_conn), client_send = (\<lambda>c. Inr ref_bytes_response)\<rparr>"

definition ref_background_task :: "(hmap, hmap in_memory_entry) background_task" where
  "ref_background_task = \<lparr>bg_method = Get, bg_url = ''http://h/a'', bg_request_headers = [],
     bg_stored = \<lparr>ime_variant = future_variant ref_future, ime_key = ref_key\<rparr>, bg_key = ref_key\<rparr>"

theorem background_revalidation_outcome_witness:
  "\<exists>s' pol tr. background_revalidation ref_env (in_memory_storage_ops ref_bytes_env) ref_body_ops
       (in_memory_put_ops ref_bytes_env) ref_list_served ref_client_ops cache_new 0 ref_background_task (\<lambda>k. None) = Some s' \<and>
     visible (in_memory_storage_ops ref_bytes_env) ime_variant s' ref_key =
       [\<lparr>v_policy = pol, v_body = [104, 105], v_trailers = tr\<rparr>]"
proof -
  let ?S = "in_memory_storage_ops ref_bytes_env"
  have keeps: "me_keeps ref_bytes_env (\<lambda>k. None)" "visible ?S ime_variant (\<lambda>k. None) ref_key = []"
    by (simp_all add: ref_bytes_env_def bucket_of_def ref_moka_def)
  have ready: "always_ready ref_body_ops" by (simp add: always_ready_def ref_body_ops_def)
  have cap: "max_cacheable_size cache_new < - 1" "length (id [104, 105 :: 8 word]) \<le> unat (max_cacheable_size cache_new)"
    by code_simp+
  have send: "client_send ref_client_ops ((client_build_conn ref_client_ops (bg_method ref_background_task)
      (bg_url ref_background_task))\<lparr>conn_request_headers := bg_request_headers ref_background_task\<rparr>) = Inr ref_bytes_response"
    "conn_status ref_bytes_response = Some 200" "conn_response_body ref_bytes_response = Some (PlainBody [104, 105])"
    "bg_key ref_background_task = ref_key"
    by (simp_all add: ref_client_ops_def ref_bytes_response_def ref_background_task_def)
  have st: "is_storable ref_env (conn_method ref_bytes_response) (conn_request_headers ref_bytes_response) 200
      (conn_response_headers ref_bytes_response) (handler_options cache_new)"
    by code_simp
  have u: "served_unframed ref_list_served (PlainBody [104, 105]) (served_len ref_list_served (PlainBody [104, 105])) = [104, 105]"
    by (simp add: ref_list_served_def)
  from background_revalidation_outcome [OF ref_bytes_lossless keeps(1) ref_body_source ready cap(1) send(1,2),
      where E = ref_env and V = ref_list_served and now = 0]
  show ?thesis using st cap(2) by (auto simp: send u keeps(2) Let_def spec_commit_def id_def simp del: visible_in_memory)
qed

section \<open>Partial responses\<close>

text \<open>
  C32: a partial response is stored and replayed as if it were whole. A private cache judges a 206
  to a \<open>GET\<close> storable like a 200 (no \<open>no-store\<close> on either side), without looking at the
  \<open>Range\<close> of the request, and while it is fresh every request without conditions and cache
  directives that matches in the fields of \<open>Vary\<close> is answered with the 206 and its partial body, whether or not it asks for a range.
\<close>

theorem partial_response_reused:
  assumes "\<not> shared opts" and "\<not> is_some_and (headers_cache_control E rq) is_no_store"
    and "\<not> is_some_and (headers_cache_control E rs) is_no_store"
    and p: "p = policy_new E Get rq 206 rs t opts" and "age E p now = Some a" and "a < max_age E p"
    and "headers_cache_control E rq' = None" and "headers_get_str E rq' (Known Pragma) = None"
    and "headers_get_str E rq' (Known IfNoneMatch) = None" and "headers_get_str E rq' (Known IfModifiedSince) = None"
    and "vary_matches E p rq'"
  shows "is_storable E Get rq 206 rs opts \<and>
     (\<exists>r. before_request E p rq' now = Some (Fresh r) \<and> cr_status r = 206)"
proof
  show "is_storable E Get rq 206 rs opts"
    using assms(1-3) by (simp add: is_storable_def effective_private is_cacheable_by_default_def
        STATUS_CODE_CACHEABLE_BY_DEFAULT_def)
  have "satisfies_without_revalidation E p rq' now = Some True"
    using assms(5-8) by (simp add: satisfies_without_revalidation_def is_stale_def)
  moreover have "\<not> inbound_conditional_matches E p rq'"
    using assms(9,10) by (simp add: inbound_conditional_matches_def)
  moreover obtain r where "cached_response E p now = Some r" "cr_status r = 206"
    using assms(5) p by (auto simp: cached_response_Some_iff)
  ultimately show "\<exists>r. before_request E p rq' now = Some (Fresh r) \<and> cr_status r = 206"
    using assms(11) by (simp add: before_request_def)
qed

theorem partial_response_reused_witness:
  "\<exists>r. before_request ref_env (policy_new ref_env Get [(UnknownName ''range'', [Utf8 ''bytes=0-1''])] 206
       [(Known CacheControl, [Utf8 ''max-age=600'']), (Known ContentRange, [Utf8 ''bytes 0-1/9''])] 0 cache_options_default)
       [] 5000000000 = Some (Fresh r) \<and> cr_status r = 206"
proof -
  let ?rs = "[(Known CacheControl, [Utf8 ''max-age=600'']), (Known ContentRange, [Utf8 ''bytes 0-1/9''])]"
  let ?p = "policy_new ref_env Get [(UnknownName ''range'', [Utf8 ''bytes=0-1''])] 206 ?rs 0 cache_options_default"
  have "\<not> shared cache_options_default" "age ref_env ?p 5000000000 = Some 5000000000" "5000000000 < max_age ref_env ?p"
    "\<not> is_some_and (headers_cache_control ref_env [(UnknownName ''range'', [Utf8 ''bytes=0-1''])]) is_no_store"
    "\<not> is_some_and (headers_cache_control ref_env ?rs) is_no_store" "vary_matches ref_env ?p []"
    by code_simp+
  from partial_response_reused [OF this(1,4,5) refl this(2,3) _ _ _ _ this(6)] show ?thesis
    by (simp add: ref_env_def ref_cc_def ref_get_str_def)
qed

end
